theory Spec2Isabelle
  imports Complex_Main "HOL-Library.Sublist" "HOL-Library.Multiset"
begin

section \<open>JavaScript values used by \<open>src/index.ts\<close>\<close>

subsection \<open>Numbers\<close>

text \<open>
  A JavaScript \<open>number\<close> is a binary64 value: \<open>NaN\<close>, an infinity, or a finite
  double, which the model holds as the real number it denotes. The sign of zero is not
  modelled (\<open>-0\<close> is \<open>0\<close>). Comparison is exact; addition, division and the
  conversion of a decimal literal round their exact result to the nearest double, ties
  to the even mantissa, and overflow to an infinity (\<open>round64\<close> below).
\<close>

datatype number = NaN | NegInfinity | Num real | Infinity

fun isNaN :: "number \<Rightarrow> bool" where
  "isNaN NaN = True"
| "isNaN _ = False"

fun isFinite :: "number \<Rightarrow> bool" where
  "isFinite (Num _) = True"
| "isFinite _ = False"

text \<open>\<open>ilog2 n\<close> is the position of the leading bit of \<open>n\<close>, for \<open>n >= 1\<close>.\<close>

function ilog2 :: "int \<Rightarrow> int" where
  "ilog2 n = (if n < 2 then 0 else 1 + ilog2 (n div 2))"
  by pat_completeness auto
termination
  by (relation "measure nat") auto

declare ilog2.simps [simp del]

text \<open>The binary exponent of \<open>x > 0\<close>: the \<open>e\<close> with \<open>2^e <= x < 2^(e+1)\<close>.\<close>

definition exponent2 :: "real \<Rightarrow> int" where
  "exponent2 x = (if 1 \<le> x then ilog2 \<lfloor>x\<rfloor> else - (ilog2 (\<lceil>1 / x\<rceil> - 1) + 1))"

definition pow2 :: "int \<Rightarrow> real" where
  "pow2 e = (if 0 \<le> e then 2 ^ nat e else 1 / 2 ^ nat (- e))"

definition roundHalfEven :: "real \<Rightarrow> int" where
  "roundHalfEven z =
     (let f = \<lfloor>z\<rfloor>; d = z - of_int f
      in if d < 1 / 2 then f else if 1 / 2 < d then f + 1 else if even f then f else f + 1)"

text \<open>
  The spacing of the doubles around \<open>x\<close>: 52 binary places below the exponent of
  \<open>x\<close>, and \<open>2^-1074\<close> throughout the subnormal range.
\<close>

definition quantum :: "real \<Rightarrow> real" where
  "quantum x = pow2 (max (exponent2 \<bar>x\<bar>) (- 1022) - 52)"

text \<open>The double nearest to \<open>x\<close>, were the exponent range unbounded above.\<close>

definition nearest64 :: "real \<Rightarrow> real" where
  "nearest64 x =
     (if x = 0 then 0
      else sgn x * (of_int (roundHalfEven (\<bar>x\<bar> / quantum x)) * quantum x))"

text \<open>\<open>x\<close> rounds to \<open>2^1024\<close> or beyond.\<close>

definition overflows :: "real \<Rightarrow> bool" where
  "overflows x =
     (x \<noteq> 0 \<and>
      (1023 < exponent2 \<bar>x\<bar> \<or>
       exponent2 \<bar>x\<bar> = 1023 \<and> roundHalfEven (\<bar>x\<bar> / quantum x) = 2 ^ 53))"

definition round64 :: "real \<Rightarrow> number" where
  "round64 x =
     (if overflows x then (if 0 < x then Infinity else NegInfinity) else Num (nearest64 x))"

text \<open>\<open>a < b\<close>: false as soon as one side is \<open>NaN\<close>.\<close>

fun js_lt :: "number \<Rightarrow> number \<Rightarrow> bool" where
  "js_lt (Num x) (Num y) = (x < y)"
| "js_lt NegInfinity (Num _) = True"
| "js_lt NegInfinity Infinity = True"
| "js_lt (Num _) Infinity = True"
| "js_lt _ _ = False"

definition js_gt :: "number \<Rightarrow> number \<Rightarrow> bool" where
  "js_gt a b = js_lt b a"

text \<open>\<open>a <= b\<close> is \<open>!(b < a)\<close> unless one side is \<open>NaN\<close>.\<close>

definition js_le :: "number \<Rightarrow> number \<Rightarrow> bool" where
  "js_le a b = (\<not> isNaN a \<and> \<not> isNaN b \<and> \<not> js_lt b a)"

definition js_ge :: "number \<Rightarrow> number \<Rightarrow> bool" where
  "js_ge a b = js_le b a"

fun js_neg :: "number \<Rightarrow> number" where
  "js_neg NaN = NaN"
| "js_neg NegInfinity = Infinity"
| "js_neg (Num x) = Num (- x)"
| "js_neg Infinity = NegInfinity"

text \<open>\<open>a + b\<close>.\<close>

fun js_add :: "number \<Rightarrow> number \<Rightarrow> number" where
  "js_add NaN _ = NaN"
| "js_add _ NaN = NaN"
| "js_add (Num x) (Num y) = round64 (x + y)"
| "js_add Infinity NegInfinity = NaN"
| "js_add NegInfinity Infinity = NaN"
| "js_add Infinity _ = Infinity"
| "js_add _ Infinity = Infinity"
| "js_add NegInfinity _ = NegInfinity"
| "js_add _ NegInfinity = NegInfinity"

text \<open>
  \<open>a - b\<close>. The source takes a difference only as the result of a comparator, of
  which \<open>sort\<close> reads the sign; the difference of two doubles, rounded, has the sign
  of the exact difference (it is \<open>0\<close> only for equal operands, and an overflow keeps
  the sign), so the finite case is left unrounded.
\<close>

fun js_sub :: "number \<Rightarrow> number \<Rightarrow> number" where
  "js_sub (Num x) (Num y) = Num (x - y)"
| "js_sub a b = js_add a (js_neg b)"

text \<open>\<open>a / b\<close>; a zero divisor is the positive zero (an array length).\<close>

fun js_div :: "number \<Rightarrow> number \<Rightarrow> number" where
  "js_div (Num x) (Num y) =
     (if y = 0 then (if x = 0 then NaN else if 0 < x then Infinity else NegInfinity)
      else round64 (x / y))"
| "js_div (Num _) Infinity = Num 0"
| "js_div (Num _) NegInfinity = Num 0"
| "js_div Infinity (Num y) = (if y < 0 then NegInfinity else Infinity)"
| "js_div NegInfinity (Num y) = (if y < 0 then Infinity else NegInfinity)"
| "js_div _ _ = NaN"

text \<open>Truthiness of a number: \<open>0\<close> and \<open>NaN\<close> are falsy.\<close>

fun truthy :: "number \<Rightarrow> bool" where
  "truthy NaN = False"
| "truthy (Num x) = (x \<noteq> 0)"
| "truthy _ = True"

text \<open>
  \<open>Math.max(...xs)\<close> and \<open>Math.min(...xs)\<close>: \<open>-Infinity\<close> and \<open>Infinity\<close> on no
  argument, \<open>NaN\<close> as soon as one argument is \<open>NaN\<close>.
\<close>

definition max2 :: "number \<Rightarrow> number \<Rightarrow> number" where
  "max2 a b = (if isNaN a \<or> isNaN b then NaN else if js_lt a b then b else a)"

definition min2 :: "number \<Rightarrow> number \<Rightarrow> number" where
  "min2 a b = (if isNaN a \<or> isNaN b then NaN else if js_lt b a then b else a)"

definition Math_max :: "number list \<Rightarrow> number" where
  "Math_max xs = foldl max2 NegInfinity xs"

definition Math_min :: "number list \<Rightarrow> number" where
  "Math_min xs = foldl min2 Infinity xs"

subsection \<open>Strings\<close>

text \<open>
  A string is the list of its code units, here the ones below 256. White space is what
  \<open>String.prototype.trim\<close>, the pattern \<open>\s\<close> and \<open>parseFloat\<close> skip: tab, line
  feed, vertical tab, form feed, carriage return, space and the no-break space.
\<close>

definition isWhiteSpace :: "char \<Rightarrow> bool" where
  "isWhiteSpace c = ((of_char c :: nat) \<in> {9, 10, 11, 12, 13, 32, 160})"

definition trim :: "string \<Rightarrow> string" where
  "trim s = rev (dropWhile isWhiteSpace (rev (dropWhile isWhiteSpace s)))"

fun startsWith :: "string \<Rightarrow> string \<Rightarrow> bool" where
  "startsWith s [] = True"
| "startsWith [] (c # t) = False"
| "startsWith (d # s) (c # t) = (d = c \<and> startsWith s t)"

text \<open>\<open>s.includes(t)\<close>: \<open>t\<close> occurs in \<open>s\<close> as a contiguous run.\<close>

fun str_includes :: "string \<Rightarrow> string \<Rightarrow> bool" where
  "str_includes [] t = startsWith [] t"
| "str_includes (d # s) t = (startsWith (d # s) t \<or> str_includes s t)"

text \<open>
  \<open>s.toLowerCase()\<close>. Among the code units below 256 the capital letters are
  \<open>A\<close> to \<open>Z\<close> (65 to 90) and the accented capitals 192 to 222 but for the
  multiplication sign 215; \<open>toLowerCase\<close> maps each to the code unit 32 above it and
  leaves every other code unit as it is.
\<close>

definition isCapital :: "char \<Rightarrow> bool" where
  "isCapital c =
     (65 \<le> (of_char c :: nat) \<and> (of_char c :: nat) \<le> 90 \<or>
      192 \<le> (of_char c :: nat) \<and> (of_char c :: nat) \<le> 222 \<and> (of_char c :: nat) \<noteq> 215)"

definition lowerChar :: "char \<Rightarrow> char" where
  "lowerChar c = (if isCapital c then char_of ((of_char c :: nat) + 32) else c)"

definition toLowerCase :: "string \<Rightarrow> string" where
  "toLowerCase s = map lowerChar s"

text \<open>
  \<open>s.split(sep)\<close> for a separator that is not empty (the source splits on \<open>' - '\<close>):
  the pieces between the occurrences of \<open>sep\<close>, read from the left. \<open>acc\<close> holds the
  current piece, reversed.
\<close>

fun split_from :: "string \<Rightarrow> string \<Rightarrow> string \<Rightarrow> string list" where
  "split_from sep acc [] = [rev acc]"
| "split_from sep acc (c # s) =
     (if startsWith (c # s) sep
      then rev acc # split_from sep [] (drop (length sep - 1) s)
      else split_from sep (c # acc) s)"

definition split :: "string \<Rightarrow> string \<Rightarrow> string list" where
  "split s sep = split_from sep [] s"

text \<open>\<open>s.replace(/\s+/g, ' ')\<close>: every run of white space becomes one space.\<close>

function collapseWhiteSpace :: "string \<Rightarrow> string" where
  "collapseWhiteSpace [] = []"
| "collapseWhiteSpace (c # s) =
     (if isWhiteSpace c then CHR '' '' # collapseWhiteSpace (dropWhile isWhiteSpace s)
      else c # collapseWhiteSpace s)"
  by pat_completeness auto
termination
  by (relation "measure length") (auto simp: le_imp_less_Suc length_dropWhile_le)

subsection \<open>\<open>parseFloat\<close>\<close>

text \<open>
  \<open>parseFloat(s)\<close> skips leading white space and reads the longest prefix that is a
  decimal literal: an optional sign, then \<open>Infinity\<close>, or digits with an optional
  fraction and an optional exponent. With no such prefix the result is \<open>NaN\<close>;
  otherwise it is the value the literal denotes, rounded to the nearest double.
\<close>

definition isDigit :: "char \<Rightarrow> bool" where
  "isDigit c = (48 \<le> (of_char c :: nat) \<and> (of_char c :: nat) \<le> 57)"

definition digitsVal :: "string \<Rightarrow> nat" where
  "digitsVal ds = foldl (\<lambda>acc c. 10 * acc + ((of_char c :: nat) - 48)) 0 ds"

definition readSign :: "string \<Rightarrow> bool \<times> string" where
  "readSign s =
     (case s of
        [] \<Rightarrow> (False, s)
      | c # r \<Rightarrow>
          if c = CHR ''-'' then (True, r)
          else if c = CHR ''+'' then (False, r)
          else (False, s))"

definition readExponent :: "string \<Rightarrow> int" where
  "readExponent s =
     (case s of
        [] \<Rightarrow> 0
      | c # r \<Rightarrow>
          if c = CHR ''e'' \<or> c = CHR ''E'' then
            (let (neg, t) = readSign r; ds = takeWhile isDigit t
             in if ds = [] then 0
                else if neg then - int (digitsVal ds) else int (digitsVal ds))
          else 0)"

definition scale10 :: "real \<Rightarrow> int \<Rightarrow> real" where
  "scale10 m e = (if 0 \<le> e then m * 10 ^ nat e else m / 10 ^ nat (- e))"

definition parseFloat :: "string \<Rightarrow> number" where
  "parseFloat s =
     (let (neg, u) = readSign (dropWhile isWhiteSpace s) in
      if startsWith u ''Infinity'' then (if neg then NegInfinity else Infinity)
      else
        let ip = takeWhile isDigit u;
            r1 = dropWhile isDigit u;
            (fp, r2) =
              (case r1 of
                 [] \<Rightarrow> ([], r1)
               | c # r \<Rightarrow>
                   if c = CHR ''.'' then (takeWhile isDigit r, dropWhile isDigit r)
                   else ([], r1))
        in if ip = [] \<and> fp = [] then NaN
           else
             let m = real (digitsVal ip) + real (digitsVal fp) / 10 ^ length fp;
                 v = scale10 m (readExponent r2)
             in round64 (if neg then - v else v))"

section \<open>Types and constants of \<open>src/index.ts\<close>\<close>

record EarthquakeData =
  date :: string
  time :: string
  latitude :: string
  longitude :: string
  depth :: string
  magnitude :: string
  location :: string
  magnitudeNumeric :: number

record CacheEntry =
  data :: "EarthquakeData list"
  timestamp :: int

definition CACHE_TTL_MS :: int where
  "CACHE_TTL_MS = 5 * 60 * 1000"

datatype error =
    NetworkError       \<comment> \<open>\<open>axios.get\<close> rejects: timeout, connection, TLS, status\<close>
  | TableNotFound      \<comment> \<open>\<open>Error('Earthquake data table not found on page')\<close>\<close>
  | NoValidData        \<comment> \<open>\<open>Error('No valid earthquake data found')\<close>\<close>
  | TypeError          \<comment> \<open>\<open>reduce\<close> of an empty array with no initial value\<close>

section \<open>Helper functions\<close>

definition parseMagnitude :: "string \<Rightarrow> number" where
  "parseMagnitude mag = (let parsed = parseFloat mag in if isNaN parsed then Num 0 else parsed)"

text \<open>
  \<open>filterByMagnitude(earthquakes, minMag, maxMag?)\<close>; an argument that is left out is
  \<open>None\<close>. The test \<open>!maxMag\<close> holds for the missing argument and for every falsy
  number.
\<close>

definition filterByMagnitude ::
  "EarthquakeData list \<Rightarrow> number \<Rightarrow> number option \<Rightarrow> EarthquakeData list" where
  "filterByMagnitude earthquakes minMag maxMag =
     filter (\<lambda>eq.
        let mag = magnitudeNumeric eq
        in js_ge mag minMag \<and>
           ((case maxMag of None \<Rightarrow> True | Some m \<Rightarrow> \<not> truthy m) \<or>
            (case maxMag of None \<Rightarrow> False | Some m \<Rightarrow> js_le mag m)))
       earthquakes"

definition filterByLocation :: "EarthquakeData list \<Rightarrow> string \<Rightarrow> EarthquakeData list" where
  "filterByLocation earthquakes loc =
     (let searchTerm = toLowerCase loc
      in filter (\<lambda>eq. str_includes (toLowerCase (location eq)) searchTerm) earthquakes)"

section \<open>The page as \<open>cheerio\<close> presents it\<close>

text \<open>
  The source reads the page through \<open>cheerio\<close> queries only, and the model starts
  from their answers. Of the page it makes two queries: \<open>$table.length\<close>, the number
  of elements \<open>$('table.MsoNormalTable')\<close> selects, and \<open>$table.find('tr')\<close>, the
  \<open>tr\<close> elements inside the selected tables, each once, in document order. Of a row
  it asks \<open>find('td')\<close>, its cells; of a cell its \<open>text()\<close> and \<open>find('a')\<close>, whose
  elements are held by their texts.
\<close>

record cell =
  anchors :: "string list"
  cellText :: string

type_synonym row = "cell list"

record document =
  tableCount :: nat
  tableRows :: "row list"

section \<open>\<open>fetchEarthquakes\<close>\<close>

subsection \<open>Extraction (lines 79 to 120)\<close>

text \<open>
  The object \<open>earthquake\<close> that the callback of \<open>$table.find('tr').each\<close> builds
  from the cells of a row with at least six of them (lines 93 to 110).
  \<open>[date = '', time = ''] = parts\<close> takes the first two pieces, each \<open>''\<close> when
  missing; the text of a selection is the texts of its elements, joined.
\<close>

definition rowRecord :: "row \<Rightarrow> EarthquakeData" where
  "rowRecord cols =
     (let dateLink = anchors (cols ! 0);
          parts = (if length dateLink \<noteq> 0 then split (trim (concat dateLink)) '' - '' else []);
          date0 = (case parts of [] \<Rightarrow> [] | d # _ \<Rightarrow> d);
          time0 = (case parts of d # t # _ \<Rightarrow> t | _ \<Rightarrow> []);
          magnitudeStr = trim (cellText (cols ! 4));
          magnitudeNum = parseMagnitude magnitudeStr
      in \<lparr>date = trim date0,
          time = trim time0,
          latitude = trim (cellText (cols ! 1)),
          longitude = trim (cellText (cols ! 2)),
          depth = trim (cellText (cols ! 3)),
          magnitude = magnitudeStr,
          location = trim (collapseWhiteSpace (cellText (cols ! 5))),
          magnitudeNumeric = magnitudeNum\<rparr>)"

text \<open>The callback itself, as a function of the array \<open>earthquakes\<close> it pushes to.\<close>

definition eachRow :: "EarthquakeData list \<Rightarrow> row \<Rightarrow> EarthquakeData list" where
  "eachRow earthquakes cols =
     (if length cols < 6 then earthquakes
      else
        let earthquake = rowRecord cols
        in if date earthquake \<noteq> [] \<and> time earthquake \<noteq> [] \<and>
              magnitude earthquake \<noteq> [] \<and> location earthquake \<noteq> []
           then earthquakes @ [earthquake]
           else earthquakes)"

definition extractEarthquakes :: "document \<Rightarrow> error + EarthquakeData list" where
  "extractEarthquakes page =
     (if tableCount page = 0 then Inl TableNotFound
      else
        let earthquakes = foldl eachRow [] (tableRows page)
        in if length earthquakes = 0 then Inl NoValidData else Inr earthquakes)"

subsection \<open>The cache and the request\<close>

text \<open>
  The state of the process: the module variable \<open>earthquakeCache\<close>, and the number of
  \<open>axios.get\<close> calls made so far, kept to count the fetches. \<open>Date.now()\<close> is an
  argument wherever the source reads the clock.
\<close>

record server =
  earthquakeCache :: "CacheEntry option"
  requests :: nat

definition isCacheValid :: "int \<Rightarrow> server \<Rightarrow> bool" where
  "isCacheValid now s =
     (case earthquakeCache s of
        None \<Rightarrow> False
      | Some entry \<Rightarrow> now - timestamp entry < CACHE_TTL_MS)"

text \<open>
  \<open>fetchEarthquakes\<close> runs without interruption up to its one \<open>await\<close>, and again
  from the response to its end. \<open>fetchEarthquakes_start\<close> is the first part: it returns
  the cached data, or issues the request and waits.
\<close>

datatype call = Returned "EarthquakeData list" | Awaiting

definition fetchEarthquakes_start :: "bool \<Rightarrow> int \<Rightarrow> server \<Rightarrow> call \<times> server" where
  "fetchEarthquakes_start forceRefresh now s =
     (case (if \<not> forceRefresh \<and> isCacheValid now s then earthquakeCache s else None) of
        Some entry \<Rightarrow> (Returned (data entry), s)
      | None \<Rightarrow> (Awaiting, s\<lparr>requests := requests s + 1\<rparr>))"

text \<open>
  What the \<open>try\<close> block computes from the outcome of the request: the request's own
  failure, or the extraction from the page it loaded.
\<close>

definition attempt :: "error + document \<Rightarrow> error + EarthquakeData list" where
  "attempt response =
     (case response of Inl err \<Rightarrow> Inl err | Inr page \<Rightarrow> extractEarthquakes page)"

text \<open>
  The second part, from the response on: the cache update at \<open>Date.now() = now\<close>, or
  the \<open>catch\<close> block.
\<close>

definition fetchEarthquakes_resume ::
  "error + document \<Rightarrow> int \<Rightarrow> server \<Rightarrow> (error + EarthquakeData list) \<times> server" where
  "fetchEarthquakes_resume response now s =
     (case attempt response of
        Inr earthquakes \<Rightarrow>
          (Inr earthquakes,
           s\<lparr>earthquakeCache := Some \<lparr>data = earthquakes, timestamp = now\<rparr>\<rparr>)
      | Inl err \<Rightarrow>
          (case earthquakeCache s of
             Some entry \<Rightarrow> (Inr (data entry), s)
           | None \<Rightarrow> (Inl err, s)))"

text \<open>One call that nothing interleaves with.\<close>

definition fetchEarthquakes ::
  "bool \<Rightarrow> int \<Rightarrow> error + document \<Rightarrow> int \<Rightarrow> server
     \<Rightarrow> (error + EarthquakeData list) \<times> server" where
  "fetchEarthquakes forceRefresh now response now' s =
     (case fetchEarthquakes_start forceRefresh now s of
        (Returned earthquakes, s1) \<Rightarrow> (Inr earthquakes, s1)
      | (Awaiting, s1) \<Rightarrow> fetchEarthquakes_resume response now' s1)"

text \<open>
  Calls that arrive together: every call runs its first part before any response
  comes in; the responses then come in, here in the order of the calls.
\<close>

fun start_all :: "int list \<Rightarrow> server \<Rightarrow> call list \<times> server" where
  "start_all [] s = ([], s)"
| "start_all (now # nows) s =
     (let (c, s1) = fetchEarthquakes_start False now s;
          (cs, s2) = start_all nows s1
      in (c # cs, s2))"

fun finish_all ::
  "call list \<Rightarrow> ((error + document) \<times> int) list \<Rightarrow> server
     \<Rightarrow> (error + EarthquakeData list) list \<times> server" where
  "finish_all [] rs s = ([], s)"
| "finish_all (Returned earthquakes # cs) rs s =
     (let (outs, s1) = finish_all cs rs s in (Inr earthquakes # outs, s1))"
| "finish_all (Awaiting # cs) [] s = ([], s)"
| "finish_all (Awaiting # cs) ((response, now) # rs) s =
     (let (out, s1) = fetchEarthquakes_resume response now s;
          (outs, s2) = finish_all cs rs s1
      in (out # outs, s2))"

definition simultaneous ::
  "int list \<Rightarrow> ((error + document) \<times> int) list \<Rightarrow> server
     \<Rightarrow> (error + EarthquakeData list) list \<times> server" where
  "simultaneous nows responses s =
     (let (cs, s1) = start_all nows s in finish_all cs responses s1)"

section \<open>The route handlers' computations\<close>

subsection \<open>\<open>/earthquakes/top/:count\<close>\<close>

text \<open>
  \<open>xs.sort(cmp)\<close>: the sort is stable, and \<open>x\<close> goes after \<open>y\<close> only when
  \<open>cmp(x, y) > 0\<close> (a \<open>NaN\<close> from the comparator counts as \<open>0\<close>). With a
  consistent comparator the result of a stable sort is determined, whatever the
  algorithm; the model computes it by insertion, each element going before the
  elements after it that it is not greater than.
\<close>

fun insert_by :: "('a \<Rightarrow> 'a \<Rightarrow> number) \<Rightarrow> 'a \<Rightarrow> 'a list \<Rightarrow> 'a list" where
  "insert_by cmp x [] = [x]"
| "insert_by cmp x (y # ys) =
     (if js_gt (cmp x y) (Num 0) then y # insert_by cmp x ys else x # y # ys)"

definition array_sort :: "('a \<Rightarrow> 'a \<Rightarrow> number) \<Rightarrow> 'a list \<Rightarrow> 'a list" where
  "array_sort cmp xs = foldr (insert_by cmp) xs []"

text \<open>\<open>[...earthquakes].sort((a, b) => b.magnitudeNumeric - a.magnitudeNumeric).slice(0, count)\<close>, with \<open>n\<close> for \<open>count\<close>\<close>

definition topEarthquakes :: "EarthquakeData list \<Rightarrow> nat \<Rightarrow> EarthquakeData list" where
  "topEarthquakes earthquakes n =
     take n
       (array_sort (\<lambda>a b. js_sub (magnitudeNumeric b) (magnitudeNumeric a)) earthquakes)"

subsection \<open>\<open>/earthquakes/stats\<close>\<close>

record summary =
  maximum :: number
  minimum :: number
  average :: number

record stats =
  total_count :: nat
  stats_magnitude :: summary
  stats_depth :: summary
  most_recent :: "EarthquakeData option"
  strongest :: EarthquakeData

text \<open>\<open>xs.reduce(f)\<close> with no initial value raises a \<open>TypeError\<close> on the empty array.\<close>

definition reduce1 :: "('a \<Rightarrow> 'a \<Rightarrow> 'a) \<Rightarrow> 'a list \<Rightarrow> error + 'a" where
  "reduce1 f xs = (case xs of [] \<Rightarrow> Inl TypeError | x # rest \<Rightarrow> Inr (foldl f x rest))"

definition summarise :: "number list \<Rightarrow> summary" where
  "summarise xs =
     \<lparr>maximum = Math_max xs,
      minimum = Math_min xs,
      average = js_div (foldl js_add (Num 0) xs) (Num (real (length xs)))\<rparr>"

text \<open>
  Lines 377 to 396: the object \<open>stats\<close>, whose last field raises when
  \<open>earthquakes\<close> is empty.
\<close>

definition computeStats :: "EarthquakeData list \<Rightarrow> error + stats" where
  "computeStats earthquakes =
     (let magnitudes = map magnitudeNumeric earthquakes;
          depths = map (\<lambda>eq. parseMagnitude (depth eq)) earthquakes;
          mags = summarise magnitudes;
          deps = summarise depths;
          first = (case earthquakes of [] \<Rightarrow> None | eq # _ \<Rightarrow> Some eq)
      in case reduce1 (\<lambda>prev curr.
                 if js_gt (magnitudeNumeric curr) (magnitudeNumeric prev) then curr else prev)
               earthquakes of
           Inl err \<Rightarrow> Inl err
         | Inr best \<Rightarrow>
             Inr \<lparr>total_count = length earthquakes,
                  stats_magnitude = mags,
                  stats_depth = deps,
                  most_recent = first,
                  strongest = best\<rparr>)"

section \<open>Notions the properties are stated with\<close>

text \<open>
  A row qualifies when it has at least six cells and the date, time, magnitude and
  location read from it are not empty once trimmed.
\<close>

definition qualifies :: "row \<Rightarrow> bool" where
  "qualifies cols =
     (6 \<le> length cols \<and> date (rowRecord cols) \<noteq> [] \<and> time (rowRecord cols) \<noteq> [] \<and>
      magnitude (rowRecord cols) \<noteq> [] \<and> location (rowRecord cols) \<noteq> [])"

text \<open>
  What holds of every snapshot the cache can hold: it is not empty, and the
  \<open>magnitudeNumeric\<close> of its records is never \<open>NaN\<close>.
\<close>

definition numeric :: "EarthquakeData list \<Rightarrow> bool" where
  "numeric earthquakes = list_all (\<lambda>eq. \<not> isNaN (magnitudeNumeric eq)) earthquakes"

definition cache_ok :: "server \<Rightarrow> bool" where
  "cache_ok s =
     (case earthquakeCache s of
        None \<Rightarrow> True
      | Some entry \<Rightarrow> data entry \<noteq> [] \<and> numeric (data entry))"

text \<open>The comparator of the top route and the reducer of the stats route.\<close>

abbreviation (input) byMagnitude :: "EarthquakeData \<Rightarrow> EarthquakeData \<Rightarrow> number" where
  "byMagnitude \<equiv> \<lambda>a b. js_sub (magnitudeNumeric b) (magnitudeNumeric a)"

abbreviation (input) stronger :: "EarthquakeData \<Rightarrow> EarthquakeData \<Rightarrow> EarthquakeData" where
  "stronger \<equiv> \<lambda>prev curr.
     if js_gt (magnitudeNumeric curr) (magnitudeNumeric prev) then curr else prev"

subsection \<open>Sample data\<close>

definition quake :: "string \<Rightarrow> string \<Rightarrow> EarthquakeData" where
  "quake mag loc =
     \<lparr>date = ''03 November 2025'', time = ''09:15 AM'', latitude = ''13.76'',
      longitude = ''121.05'', depth = ''010'', magnitude = mag, location = loc,
      magnitudeNumeric = parseMagnitude mag\<rparr>"

definition textCell :: "string \<Rightarrow> cell" where
  "textCell t = \<lparr>anchors = [], cellText = t\<rparr>"

definition sampleRow :: "string \<Rightarrow> string \<Rightarrow> row" where
  "sampleRow mag loc =
     [\<lparr>anchors = [''03 November 2025 - 09:15 AM''], cellText = ''03 November 2025 - 09:15 AM''\<rparr>,
      textCell ''13.76'', textCell ''121.05'', textCell ''010'', textCell mag, textCell loc]"

text \<open>One table: a header row of two cells, a row with no magnitude, two full rows.\<close>

definition samplePage :: document where
  "samplePage =
     \<lparr>tableCount = 1,
      tableRows =
        [[textCell ''Date - Time'', textCell ''Location''],
         sampleRow ''4.5'' ''Batangas'',
         sampleRow [] ''Cebu'',
         sampleRow ''2.1'' ''Davao'']\<rparr>"

text \<open>A page with no matching table, and pages whose one table has no valid row.\<close>

definition noTablePage :: document where
  "noTablePage = \<lparr>tableCount = 0, tableRows = []\<rparr>"

definition headerOnlyPage :: document where
  "headerOnlyPage =
     \<lparr>tableCount = 1, tableRows = [[textCell ''Date - Time'', textCell ''Location'']]\<rparr>"

definition invalidRowPage :: document where
  "invalidRowPage = \<lparr>tableCount = 1, tableRows = [sampleRow [] ''Cebu'']\<rparr>"

definition sampleQuakes :: "EarthquakeData list" where
  "sampleQuakes =
     [quake ''4.5'' ''012 km N 45 E of Calatagan (Batangas)'',
      quake ''5.8'' ''Davao Oriental'',
      quake ''4.5'' ''Surigao Del Sur'',
      quake ''2.1'' ''Batangas City'']"

definition statsFixture :: "EarthquakeData list" where
  "statsFixture =
     [(quake ''4.5'' ''Batangas'')\<lparr>depth := ''010''\<rparr>,
      (quake ''5.8'' ''Davao Oriental'')\<lparr>depth := ''033 km''\<rparr>,
      (quake ''2.1'' ''Cebu'')\<lparr>depth := ''---''\<rparr>,
      (quake ''5.8'' ''Surigao Del Sur'')\<lparr>depth := ''002''\<rparr>]"

definition emptyServer :: server where
  "emptyServer = \<lparr>earthquakeCache = None, requests = 0\<rparr>"

definition warmServer :: server where
  "warmServer =
     \<lparr>earthquakeCache = Some \<lparr>data = sampleQuakes, timestamp = 1000\<rparr>, requests = 1\<rparr>"

subsection \<open>What the specification says of a row\<close>

text \<open>
  The notions below are written from the words of the specification, on the cells of
  the row, and owe nothing to the definitions of the extraction above. A string is
  blank when it holds white space only; \<open>trimmed s t\<close> says that \<open>t\<close> is \<open>s\<close> without
  its leading and trailing white space.
\<close>

definition blank :: "string \<Rightarrow> bool" where
  "blank s = list_all isWhiteSpace s"

definition trimmed :: "string \<Rightarrow> string \<Rightarrow> bool" where
  "trimmed s t =
     (\<exists>l r. s = l @ t @ r \<and> blank l \<and> blank r \<and>
        (t = [] \<or> \<not> isWhiteSpace (hd t) \<and> \<not> isWhiteSpace (last t)))"

text \<open>
  \<open>firstCut sep t d rest\<close>: the first occurrence of \<open>sep\<close> in \<open>t\<close> comes right after
  \<open>d\<close>, and \<open>rest\<close> follows it. The first piece of \<open>t\<close> is what comes before the first
  separator, all of \<open>t\<close> when it has none; the second piece is the first piece of what
  follows the first separator, and is empty when there is no separator.
\<close>

definition firstCut :: "string \<Rightarrow> string \<Rightarrow> string \<Rightarrow> string \<Rightarrow> bool" where
  "firstCut sep t d rest = (t = d @ sep @ rest \<and> \<not> sublist sep (d @ butlast sep))"

definition firstPiece :: "string \<Rightarrow> string \<Rightarrow> string \<Rightarrow> bool" where
  "firstPiece sep t p = (\<not> sublist sep t \<and> p = t \<or> (\<exists>rest. firstCut sep t p rest))"

definition secondPiece :: "string \<Rightarrow> string \<Rightarrow> string \<Rightarrow> bool" where
  "secondPiece sep t p =
     (\<not> sublist sep t \<and> p = [] \<or> (\<exists>d rest. firstCut sep t d rest \<and> firstPiece sep rest p))"

text \<open>
  The words of a string are its maximal runs of characters that are not white space;
  a location is normalised to its words, joined by single spaces.
\<close>

fun wordsOf :: "string \<Rightarrow> string list" where
  "wordsOf [] = []"
| "wordsOf (c # s) =
     (if isWhiteSpace c then wordsOf s
      else if s \<noteq> [] \<and> \<not> isWhiteSpace (hd s) then (c # hd (wordsOf s)) # tl (wordsOf s)
      else [c] # wordsOf s)"

text \<open>The one space that \<open>collapseWhiteSpace\<close> leaves for the leading white space.\<close>

definition lead :: "string \<Rightarrow> string" where
  "lead s = (if s \<noteq> [] \<and> isWhiteSpace (hd s) then '' '' else [])"

fun joinWords :: "string list \<Rightarrow> string" where
  "joinWords [] = []"
| "joinWords [w] = w"
| "joinWords (w # v # ws) = w @ CHR '' '' # joinWords (v # ws)"

text \<open>
  The date and the time of a row: with no link in the first cell both are empty;
  otherwise they are the first and the second piece of the trimmed link text, split at
  \<open>' - '\<close>, each trimmed.
\<close>

definition rowDateTime :: "row \<Rightarrow> string \<Rightarrow> string \<Rightarrow> bool" where
  "rowDateTime cols d tm =
     (if anchors (cols ! 0) = [] then d = [] \<and> tm = []
      else \<exists>t p q. trimmed (concat (anchors (cols ! 0))) t \<and>
             firstPiece '' - '' t p \<and> secondPiece '' - '' t q \<and> trimmed p d \<and> trimmed q tm)"

text \<open>
  A qualifying row: at least six cells; a date and a time that are not empty; a
  magnitude (cell 4) and a location (cell 5) that are not blank.
\<close>

definition qualifyingRow :: "row \<Rightarrow> bool" where
  "qualifyingRow cols =
     (6 \<le> length cols \<and> (\<exists>d tm. rowDateTime cols d tm \<and> d \<noteq> [] \<and> tm \<noteq> []) \<and>
      \<not> blank (cellText (cols ! 4)) \<and> \<not> blank (cellText (cols ! 5)))"

text \<open>The record of a row, field by field, in the column mapping of the specification.\<close>

definition recordOfRow :: "row \<Rightarrow> EarthquakeData \<Rightarrow> bool" where
  "recordOfRow cols r =
     (rowDateTime cols (date r) (time r) \<and>
      trimmed (cellText (cols ! 1)) (latitude r) \<and>
      trimmed (cellText (cols ! 2)) (longitude r) \<and>
      trimmed (cellText (cols ! 3)) (depth r) \<and>
      trimmed (cellText (cols ! 4)) (magnitude r) \<and>
      location r = joinWords (wordsOf (cellText (cols ! 5))) \<and>
      magnitudeNumeric r = parseMagnitude (magnitude r))"

subsection \<open>Letters in two cases\<close>

text \<open>
  The capital letters among the code units below 256, and under each the small letter
  that goes with it: \<open>A\<close> to \<open>Z\<close>, then the accented capitals of Latin-1. Two code
  units are the same letter when they are equal or such a pair; two strings are the
  same ignoring case when they are so code unit by code unit.
\<close>

definition capitals :: string where
  "capitals =
     ''ABCDEFGHIJKLMNOPQRSTUVWXYZ'' @
     [CHR 0xC0, CHR 0xC1, CHR 0xC2, CHR 0xC3, CHR 0xC4, CHR 0xC5, CHR 0xC6, CHR 0xC7,
      CHR 0xC8, CHR 0xC9, CHR 0xCA, CHR 0xCB, CHR 0xCC, CHR 0xCD, CHR 0xCE, CHR 0xCF,
      CHR 0xD0, CHR 0xD1, CHR 0xD2, CHR 0xD3, CHR 0xD4, CHR 0xD5, CHR 0xD6,
      CHR 0xD8, CHR 0xD9, CHR 0xDA, CHR 0xDB, CHR 0xDC, CHR 0xDD, CHR 0xDE]"

definition smalls :: string where
  "smalls =
     ''abcdefghijklmnopqrstuvwxyz'' @
     [CHR 0xE0, CHR 0xE1, CHR 0xE2, CHR 0xE3, CHR 0xE4, CHR 0xE5, CHR 0xE6, CHR 0xE7,
      CHR 0xE8, CHR 0xE9, CHR 0xEA, CHR 0xEB, CHR 0xEC, CHR 0xED, CHR 0xEE, CHR 0xEF,
      CHR 0xF0, CHR 0xF1, CHR 0xF2, CHR 0xF3, CHR 0xF4, CHR 0xF5, CHR 0xF6,
      CHR 0xF8, CHR 0xF9, CHR 0xFA, CHR 0xFB, CHR 0xFC, CHR 0xFD, CHR 0xFE]"

definition sameLetter :: "char \<Rightarrow> char \<Rightarrow> bool" where
  "sameLetter c d =
     (c = d \<or> (c, d) \<in> set (zip capitals smalls) \<or> (d, c) \<in> set (zip capitals smalls))"

definition sameIgnoringCase :: "string \<Rightarrow> string \<Rightarrow> bool" where
  "sameIgnoringCase s t = list_all2 sameLetter s t"

definition placeQuakes :: "EarthquakeData list" where
  "placeQuakes =
     [quake ''4.5'' ''012 km N 45 E of Calatagan (Batangas)'',
      quake ''3.1'' (''005 km S 10 W of Pe'' @ [CHR 0xF1] @ ''ablanca (Cagayan)''),
      quake ''2.1'' ''Davao Oriental'']"

subsection \<open>What the statistics are, in binary64\<close>

text \<open>
  The greatest and the least of a list of numbers, in the order of \<open><=\<close>.
\<close>

definition greatest :: "number list \<Rightarrow> number \<Rightarrow> bool" where
  "greatest vs m = (m \<in> set vs \<and> (\<forall>v\<in>set vs. js_le v m))"

definition least :: "number list \<Rightarrow> number \<Rightarrow> bool" where
  "least vs m = (m \<in> set vs \<and> (\<forall>v\<in>set vs. js_le m v))"

text \<open>
  The sum of finite values as binary64 arithmetic forms it: from the left, each partial
  sum rounded to the nearest double. \<open>sumFits\<close> says that no partial sum overflows.
\<close>

fun sum64 :: "real \<Rightarrow> real list \<Rightarrow> real" where
  "sum64 acc [] = acc"
| "sum64 acc (x # xs) = sum64 (nearest64 (acc + x)) xs"

fun sumFits :: "real \<Rightarrow> real list \<Rightarrow> bool" where
  "sumFits acc [] = True"
| "sumFits acc (x # xs) = (\<not> overflows (acc + x) \<and> sumFits (nearest64 (acc + x)) xs)"

text \<open>
  A summary of the values \<open>vs\<close>: their greatest, their least and, when they are finite
  and their sum does not overflow, the rounded quotient of that sum by their number.
\<close>

definition summaryOf :: "number list \<Rightarrow> summary \<Rightarrow> bool" where
  "summaryOf vs s =
     (greatest vs (maximum s) \<and> least vs (minimum s) \<and>
      (\<forall>xs. vs = map Num xs \<and> sumFits 0 xs \<longrightarrow>
         average s = round64 (sum64 0 xs / real (length xs))))"

definition threeQuakes :: "EarthquakeData list" where
  "threeQuakes = [quake ''3.3'' ''Batangas'', quake ''3.3'' ''Cebu'', quake ''3.3'' ''Davao'']"

text \<open>The fixture of the specification: magnitudes 4.5, 5.8 and 2.1.\<close>

definition specFixture :: "EarthquakeData list" where
  "specFixture = [quake ''4.5'' ''Batangas'', quake ''5.8'' ''Cebu'', quake ''2.1'' ''Davao'']"

subsection \<open>More sample data\<close>

text \<open>
  A page whose table has a header row, a full row with stray white space in every
  cell, a row of six cells with no link and a blank magnitude, and a plain full row.
\<close>

definition messyRow :: row where
  "messyRow =
     [\<lparr>anchors = [''  03 November 2025 - 09:15 AM ''], cellText = ''  03 November 2025 - 09:15 AM ''\<rparr>,
      textCell '' 13.76 '', textCell ''121.05  '', textCell ''  010'', textCell '' 4.5 '',
      textCell ''  012 km   N 45  E of Calatagan   (Batangas)  '']"

definition noLinkRow :: row where
  "noLinkRow =
     [textCell ''03 November 2025 - 09:15 AM'', textCell ''13.76'', textCell ''121.05'',
      textCell ''010'', textCell '' '', textCell ''Cebu'']"

definition messyPage :: document where
  "messyPage =
     \<lparr>tableCount = 1,
      tableRows =
        [[textCell ''Date - Time'', textCell ''Location''],
         messyRow,
         noLinkRow,
         sampleRow ''2.1'' ''Davao'']\<rparr>"

section \<open>Extraction\<close>

lemma foldl_eachRow: "foldl eachRow acc rows = acc @ map rowRecord (filter qualifies rows)"
  by (induction rows arbitrary: acc) (auto simp: eachRow_def qualifies_def Let_def)

lemma samplePage_rows:
  "map rowRecord (filter qualifies (tableRows samplePage)) =
     [quake ''4.5'' ''Batangas'', quake ''2.1'' ''Davao'']"
  by code_simp

lemma samplePage_extract:
  "extractEarthquakes samplePage = Inr [quake ''4.5'' ''Batangas'', quake ''2.1'' ''Davao'']"
  by (simp add: extractEarthquakes_def foldl_eachRow samplePage_rows) (simp add: samplePage_def)

lemma parseMagnitude_number: "\<not> isNaN (parseMagnitude mag)"
  by (simp add: parseMagnitude_def Let_def)

lemma parseMagnitude_unparsable: "isNaN (parseFloat mag) \<Longrightarrow> parseMagnitude mag = Num 0"
  by (simp add: parseMagnitude_def)

lemma rowRecord_number: "\<not> isNaN (magnitudeNumeric (rowRecord cols))"
  by (simp add: rowRecord_def Let_def parseMagnitude_number)

lemma extract_numeric:
  "extractEarthquakes page = Inr recs \<Longrightarrow> recs \<noteq> [] \<and> numeric recs"
  by (auto simp: extractEarthquakes_def foldl_eachRow numeric_def list_all_iff rowRecord_number
      split: if_splits)

subsection \<open>The extraction against the words of the specification\<close>

lemma blank_append [simp]: "blank (s @ t) \<longleftrightarrow> blank s \<and> blank t"
  by (simp add: blank_def)

lemma blank_Nil [simp]: "blank []"
  by (simp add: blank_def)

lemma blank_Cons [simp]: "blank (c # s) \<longleftrightarrow> isWhiteSpace c \<and> blank s"
  by (simp add: blank_def)

lemma blank_rev [simp]: "blank (rev s) = blank s"
  by (simp add: blank_def list_all_iff)

lemma dropWhile_blank: "blank l \<Longrightarrow> dropWhile isWhiteSpace (l @ s) = dropWhile isWhiteSpace s"
  by (simp add: blank_def list_all_iff dropWhile_append2)

lemma trim_unique:
  assumes "trimmed s t"
  shows "trim s = t"
proof -
  from assms obtain l r where s: "s = l @ t @ r" and l: "blank l" and r: "blank r"
    and t: "t = [] \<or> \<not> isWhiteSpace (hd t) \<and> \<not> isWhiteSpace (last t)"
    by (auto simp: trimmed_def)
  show ?thesis
  proof (cases "t = []")
    case True
    then have "blank s"
      using s l r by simp
    then have "trim s = []"
      by (auto simp: trim_def blank_def list_all_iff dest: set_dropWhileD)
    with True show ?thesis
      by simp
  next
    case False
    with t have h: "\<not> isWhiteSpace (hd t)" and e: "\<not> isWhiteSpace (last t)"
      by auto
    from False h have "dropWhile isWhiteSpace (t @ r) = t @ r"
      by (cases t) auto
    then have 1: "dropWhile isWhiteSpace s = t @ r"
      by (simp add: s dropWhile_blank [OF l])
    from False e have "dropWhile isWhiteSpace (rev t) = rev t"
      by (cases "rev t") (auto simp: last_rev [symmetric] hd_rev simp del: rev_is_Nil_conv)
    then have "dropWhile isWhiteSpace (rev r @ rev t) = rev t"
      using dropWhile_blank [of "rev r" "rev t"] r by simp
    with 1 show ?thesis
      by (simp add: trim_def)
  qed
qed

lemma trimmed_trim: "trimmed s (trim s)"
proof -
  let ?rest = "dropWhile isWhiteSpace s"
  let ?l = "takeWhile isWhiteSpace s"
  let ?r = "rev (takeWhile isWhiteSpace (rev ?rest))"
  let ?t = "rev (dropWhile isWhiteSpace (rev ?rest))"
  have "rev ?rest = takeWhile isWhiteSpace (rev ?rest) @ dropWhile isWhiteSpace (rev ?rest)"
    by simp
  then have "?rest = ?t @ ?r"
    by (metis rev_append rev_rev_ident)
  then have s: "s = ?l @ ?t @ ?r"
    by (metis takeWhile_dropWhile_id)
  have l: "blank ?l"
    by (auto simp: blank_def list_all_iff dest: set_takeWhileD)
  have r: "blank ?r"
    by (auto simp: blank_def list_all_iff dest: set_takeWhileD)
  have t: "?t = [] \<or> \<not> isWhiteSpace (hd ?t) \<and> \<not> isWhiteSpace (last ?t)"
  proof (cases "?t = []")
    case True
    then show ?thesis by simp
  next
    case False
    then have ne: "dropWhile isWhiteSpace (rev ?rest) \<noteq> []"
      by simp
    then have 1: "\<not> isWhiteSpace (hd (dropWhile isWhiteSpace (rev ?rest)))"
      by (rule hd_dropWhile)
    from ne have "last (dropWhile isWhiteSpace (rev ?rest)) = last (rev ?rest)"
      by (metis last_appendR takeWhile_dropWhile_id)
    moreover from ne have "?rest \<noteq> []"
      by (metis dropWhile.simps(1) rev.simps(1))
    ultimately have "last (dropWhile isWhiteSpace (rev ?rest)) = hd ?rest"
      by (simp add: last_rev)
    moreover from \<open>?rest \<noteq> []\<close> have "\<not> isWhiteSpace (hd ?rest)"
      by (rule hd_dropWhile)
    ultimately have 2: "\<not> isWhiteSpace (last (dropWhile isWhiteSpace (rev ?rest)))"
      by simp
    from ne 1 2 show ?thesis
      by (simp add: hd_rev last_rev)
  qed
  from s l r t show ?thesis
    unfolding trimmed_def trim_def by blast
qed

lemma trimmed_iff: "trimmed s t \<longleftrightarrow> t = trim s"
  using trim_unique trimmed_trim by auto

lemma trim_empty_iff: "trim s = [] \<longleftrightarrow> blank s"
proof
  assume "trim s = []"
  with trimmed_trim [of s] show "blank s"
    by (auto simp: trimmed_def)
next
  assume "blank s"
  then have "trimmed s []"
    unfolding trimmed_def by (intro exI [of _ s] exI [of _ "[]"]) simp
  then show "trim s = []"
    by (rule trim_unique)
qed


lemma startsWith_prefix: "startsWith s t \<longleftrightarrow> prefix t s"
  by (induction s t rule: startsWith.induct) auto

lemma split_from_no_sep:
  "\<not> sublist sep t \<Longrightarrow> split_from sep acc t = [rev acc @ t]"
proof (induction t arbitrary: acc)
  case Nil
  then show ?case by simp
next
  case (Cons c s)
  then have "\<not> prefix sep (c # s)" and "\<not> sublist sep s"
    by (auto simp: sublist_Cons_right)
  with Cons.IH [of "c # acc"] show ?case
    by (simp add: startsWith_prefix)
qed

lemma split_from_cut:
  assumes "sep \<noteq> []" and "firstCut sep t d rest"
  shows "split_from sep acc t = (rev acc @ d) # split_from sep [] rest"
  using assms(2)
proof (induction d arbitrary: acc t)
  case Nil
  then have t: "t = sep @ rest"
    by (simp add: firstCut_def)
  from assms(1) obtain c sep' where sep: "sep = c # sep'"
    by (cases sep) auto
  have "startsWith (c # sep' @ rest) sep"
    by (simp add: startsWith_prefix sep)
  then show ?case
    by (simp add: t sep)
next
  case (Cons x d)
  then have t: "t = x # d @ sep @ rest"
    and no: "\<not> sublist sep (x # d @ butlast sep)"
    by (simp_all add: firstCut_def)
  have "\<not> prefix sep t"
  proof
    assume "prefix sep t"
    moreover have "prefix (x # d @ butlast sep) t"
      using assms(1) by (simp add: t) (metis append_butlast_last_id append_assoc prefixI)
    moreover have "length sep \<le> length (x # d @ butlast sep)"
      by simp
    ultimately have "prefix sep (x # d @ butlast sep)"
      by (metis prefix_length_prefix)
    with no show False
      by auto
  qed
  moreover have "firstCut sep (d @ sep @ rest) d rest"
    using no by (simp add: firstCut_def sublist_Cons_right)
  ultimately show ?case
    using Cons.IH [of "d @ sep @ rest" "x # acc"] by (simp add: t startsWith_prefix)
qed

lemma first_cut_exists:
  assumes "sep \<noteq> []"
  shows "sublist sep t \<Longrightarrow> \<exists>d rest. firstCut sep t d rest"
proof (induction t)
  case Nil
  with assms show ?case by simp
next
  case (Cons c s)
  show ?case
  proof (cases "prefix sep (c # s)")
    case True
    then obtain rest where "c # s = sep @ rest"
      by (auto simp: prefix_def)
    moreover have "\<not> sublist sep (butlast sep)"
      using assms by (metis sublist_length_le length_butlast diff_less length_greater_0_conv
          less_numeral_extra(1) not_le)
    ultimately have "firstCut sep (c # s) [] rest"
      by (simp add: firstCut_def)
    then show ?thesis by blast
  next
    case False
    with Cons.prems have "sublist sep s"
      by (simp add: sublist_Cons_right)
    with Cons.IH obtain d rest where cut: "s = d @ sep @ rest" "\<not> sublist sep (d @ butlast sep)"
      by (auto simp: firstCut_def)
    have "\<not> prefix sep (c # d @ butlast sep)"
    proof
      assume "prefix sep (c # d @ butlast sep)"
      moreover have "prefix (c # d @ butlast sep) (c # s)"
        using assms by (simp add: cut(1)) (metis append_butlast_last_id append_assoc prefixI)
      ultimately show False
        using False by (metis prefix_order.order_trans)
    qed
    with cut have "firstCut sep (c # s) (c # d) rest"
      by (simp add: firstCut_def sublist_Cons_right)
    then show ?thesis by blast
  qed
qed

lemma firstCut_sublist: "firstCut sep t d rest \<Longrightarrow> sublist sep t"
  by (auto simp: firstCut_def)

lemma split_from_not_Nil: "split_from sep acc t \<noteq> []"
  by (induction t arbitrary: acc) auto

lemma firstPiece_iff:
  assumes "sep \<noteq> []"
  shows "firstPiece sep t p \<longleftrightarrow> p = hd (split t sep)"
proof (cases "sublist sep t")
  case False
  then show ?thesis
    by (auto simp: firstPiece_def split_def split_from_no_sep dest: firstCut_sublist)
next
  case True
  then obtain d rest where cut: "firstCut sep t d rest"
    using first_cut_exists [OF assms] by blast
  have "p = d" if "firstCut sep t p r" for r
    using split_from_cut [OF assms that, of "[]"] split_from_cut [OF assms cut, of "[]"] by simp
  moreover have "hd (split t sep) = d"
    using split_from_cut [OF assms cut, of "[]"] by (simp add: split_def)
  ultimately show ?thesis
    using True cut by (auto simp: firstPiece_def)
qed

lemma secondPiece_iff:
  assumes "sep \<noteq> []"
  shows "secondPiece sep t q \<longleftrightarrow> q = (case split t sep of d # tm # _ \<Rightarrow> tm | _ \<Rightarrow> [])"
proof (cases "sublist sep t")
  case False
  then show ?thesis
    by (auto simp: secondPiece_def split_def split_from_no_sep dest: firstCut_sublist)
next
  case True
  then obtain d rest where cut: "firstCut sep t d rest"
    using first_cut_exists [OF assms] by blast
  have sp: "split t sep = d # split rest sep"
    using split_from_cut [OF assms cut, of "[]"] by (simp add: split_def)
  obtain tm more where rest: "split rest sep = tm # more"
    using split_from_not_Nil [of sep "[]" rest] by (cases "split rest sep") (auto simp: split_def)
  have same: "split r sep = split rest sep" if "firstCut sep t d' r" for d' r
    using split_from_cut [OF assms that, of "[]"] split_from_cut [OF assms cut, of "[]"]
    by (simp add: split_def)
  show ?thesis
  proof
    assume "secondPiece sep t q"
    with True obtain d' r where "firstCut sep t d' r" "firstPiece sep r q"
      by (auto simp: secondPiece_def)
    then have "q = hd (split rest sep)"
      using same firstPiece_iff [OF assms] by simp
    then show "q = (case split t sep of d # tm # _ \<Rightarrow> tm | _ \<Rightarrow> [])"
      by (simp add: sp rest)
  next
    assume "q = (case split t sep of d # tm # _ \<Rightarrow> tm | _ \<Rightarrow> [])"
    then have "q = hd (split rest sep)"
      by (simp add: sp rest)
    then have "firstPiece sep rest q"
      by (simp add: firstPiece_iff [OF assms])
    with cut show "secondPiece sep t q"
      by (auto simp: secondPiece_def)
  qed
qed

lemma rowDateTime_iff:
  "rowDateTime cols d tm \<longleftrightarrow> d = date (rowRecord cols) \<and> tm = time (rowRecord cols)"
proof (cases "anchors (cols ! 0) = []")
  case True
  have "trim [] = []"
    by (simp add: trim_def)
  with True show ?thesis
    by (auto simp: rowDateTime_def rowRecord_def Let_def)
next
  case False
  have sep: "'' - '' \<noteq> []"
    by simp
  let ?parts = "split (trim (concat (anchors (cols ! 0)))) '' - ''"
  have ne: "?parts \<noteq> []"
    by (simp add: split_def split_from_not_Nil)
  have hd: "(case ?parts of [] \<Rightarrow> [] | d # _ \<Rightarrow> d) = hd ?parts"
    using ne by (cases ?parts) auto
  from False show ?thesis
    by (auto simp: rowDateTime_def rowRecord_def Let_def trimmed_iff firstPiece_iff [OF sep]
        secondPiece_iff [OF sep] hd)
qed


lemma wordsOf_dropWhile: "wordsOf (dropWhile isWhiteSpace s) = wordsOf s"
  by (induction s) auto

lemma wordsOf_starts: "s \<noteq> [] \<Longrightarrow> \<not> isWhiteSpace (hd s) \<Longrightarrow> wordsOf s \<noteq> []"
  by (cases s) auto

lemma wordsOf_words:
  "w \<in> set (wordsOf s) \<Longrightarrow> w \<noteq> [] \<and> (\<forall>c\<in>set w. \<not> isWhiteSpace c)"
proof (induction s arbitrary: w)
  case Nil
  then show ?case by simp
next
  case (Cons c s)
  show ?case
  proof (cases "isWhiteSpace c")
    case True
    with Cons show ?thesis by simp
  next
    case False
    show ?thesis
    proof (cases "s \<noteq> [] \<and> \<not> isWhiteSpace (hd s)")
      case True
      then obtain v vs where vs: "wordsOf s = v # vs"
        using wordsOf_starts [of s] by (cases "wordsOf s") auto
      with Cons.prems False True have "w = c # v \<or> w \<in> set vs"
        by auto
      with Cons.IH [of v] Cons.IH [of w] vs False show ?thesis
        by auto
    next
      case no: False
      with Cons.prems False have "w = [c] \<or> w \<in> set (wordsOf s)"
        by auto
      with Cons.IH [of w] False show ?thesis
        by auto
    qed
  qed
qed

lemma wordsOf_Nil_iff: "wordsOf s = [] \<longleftrightarrow> blank s"
  by (induction s) auto

lemma joinWords_Nil_iff: "[] \<notin> set ws \<Longrightarrow> joinWords ws = [] \<longleftrightarrow> ws = []"
  by (induction ws rule: joinWords.induct) auto

lemma joinWords_Cons_Cons: "vs \<noteq> [] \<Longrightarrow> joinWords (w # vs) = w @ CHR '' '' # joinWords vs"
  by (cases vs) auto

lemma joinWords_cons_first: "joinWords ((c # v) # vs) = c # joinWords (v # vs)"
  by (cases vs) auto

lemma hd_joinWords: "w \<noteq> [] \<Longrightarrow> hd (joinWords (w # ws)) = hd w"
  by (cases ws) auto

lemma last_joinWords:
  "ws \<noteq> [] \<Longrightarrow> [] \<notin> set ws \<Longrightarrow> last (joinWords ws) = last (last ws)"
proof (induction ws rule: joinWords.induct)
  case (3 w v ws)
  then have "joinWords (v # ws) \<noteq> []"
    using joinWords_Nil_iff [of "v # ws"] by auto
  with 3 show ?case by simp
qed simp_all

lemma collapse_shape:
  "\<exists>r. blank r \<and> collapseWhiteSpace s = lead s @ joinWords (wordsOf s) @ r"
proof (induction s rule: collapseWhiteSpace.induct)
  case 1
  show ?case by (simp add: lead_def)
next
  case (2 c s)
  show ?case
  proof (cases "isWhiteSpace c")
    case True
    let ?s' = "dropWhile isWhiteSpace s"
    from 2(1) [OF True] obtain r where r: "blank r"
      and c: "collapseWhiteSpace ?s' = lead ?s' @ joinWords (wordsOf ?s') @ r"
      by blast
    have "lead ?s' = []"
      using hd_dropWhile [of isWhiteSpace s] by (auto simp: lead_def)
    with c True have "collapseWhiteSpace (c # s) = lead (c # s) @ joinWords (wordsOf (c # s)) @ r"
      by (simp add: lead_def wordsOf_dropWhile isWhiteSpace_def)
    with r show ?thesis by blast
  next
    case False
    from 2(2) [OF False] obtain r where r: "blank r"
      and c: "collapseWhiteSpace s = lead s @ joinWords (wordsOf s) @ r"
      by blast
    show ?thesis
    proof (cases "s \<noteq> [] \<and> \<not> isWhiteSpace (hd s)")
      case True
      then obtain v vs where vs: "wordsOf s = v # vs"
        using wordsOf_starts [of s] by (cases "wordsOf s") auto
      from True have "lead s = []"
        by (simp add: lead_def)
      with c False True vs
      have "collapseWhiteSpace (c # s) = lead (c # s) @ joinWords (wordsOf (c # s)) @ r"
        by (simp add: lead_def joinWords_cons_first)
      with r show ?thesis by blast
    next
      case no: False
      show ?thesis
      proof (cases "wordsOf s = []")
        case True
        from False no have "wordsOf (c # s) = [c] # wordsOf s"
          by auto
        with c False True
        have "collapseWhiteSpace (c # s) = lead (c # s) @ joinWords (wordsOf (c # s)) @ (lead s @ r)"
          by (simp add: lead_def)
        moreover have "blank (lead s @ r)"
          using r by (simp add: lead_def isWhiteSpace_def)
        ultimately show ?thesis by blast
      next
        case ne: False
        then have "s \<noteq> []"
          by auto
        with no have "lead s = '' ''"
          by (simp add: lead_def)
        moreover from False no have "wordsOf (c # s) = [c] # wordsOf s"
          by auto
        ultimately
        have "collapseWhiteSpace (c # s) = lead (c # s) @ joinWords (wordsOf (c # s)) @ r"
          using c False ne by (simp add: lead_def joinWords_Cons_Cons)
        with r show ?thesis by blast
      qed
    qed
  qed
qed

lemma trimmed_collapse: "trimmed (collapseWhiteSpace s) (joinWords (wordsOf s))"
proof -
  obtain r where r: "blank r"
    and c: "collapseWhiteSpace s = lead s @ joinWords (wordsOf s) @ r"
    using collapse_shape by blast
  have l: "blank (lead s)"
    by (simp add: lead_def isWhiteSpace_def)
  have ok: "[] \<notin> set (wordsOf s)"
    using wordsOf_words by blast
  have "joinWords (wordsOf s) = [] \<or>
      \<not> isWhiteSpace (hd (joinWords (wordsOf s))) \<and> \<not> isWhiteSpace (last (joinWords (wordsOf s)))"
  proof (cases "wordsOf s")
    case Nil
    then show ?thesis by simp
  next
    case (Cons w ws)
    then have w: "w \<noteq> []" "\<forall>c\<in>set w. \<not> isWhiteSpace c"
      using wordsOf_words [of w s] by auto
    have lw: "last (wordsOf s) \<noteq> []" "\<forall>c\<in>set (last (wordsOf s)). \<not> isWhiteSpace c"
      using wordsOf_words [of "last (wordsOf s)" s] Cons by auto
    have "\<not> isWhiteSpace (hd (joinWords (wordsOf s)))"
      using w by (simp add: Cons hd_joinWords)
    moreover have "\<not> isWhiteSpace (last (joinWords (wordsOf s)))"
      using last_joinWords [of "wordsOf s"] ok lw Cons by simp
    ultimately show ?thesis by simp
  qed
  with c l r show ?thesis
    unfolding trimmed_def by blast
qed

lemma location_normalised: "trim (collapseWhiteSpace s) = joinWords (wordsOf s)"
  using trimmed_collapse by (rule trim_unique)

lemma recordOfRow_rowRecord: "recordOfRow cols (rowRecord cols)"
proof -
  have "rowDateTime cols (date (rowRecord cols)) (time (rowRecord cols))"
    by (simp add: rowDateTime_iff)
  then show ?thesis
    by (simp add: recordOfRow_def) (simp add: rowRecord_def Let_def trimmed_iff location_normalised)
qed

lemma qualifies_iff: "qualifies cols \<longleftrightarrow> qualifyingRow cols"
proof -
  have "magnitude (rowRecord cols) = [] \<longleftrightarrow> blank (cellText (cols ! 4))"
    by (simp add: rowRecord_def Let_def trim_empty_iff)
  moreover have "location (rowRecord cols) = [] \<longleftrightarrow> blank (cellText (cols ! 5))"
    using joinWords_Nil_iff [of "wordsOf (cellText (cols ! 5))"] wordsOf_words
    by (auto simp: rowRecord_def Let_def location_normalised wordsOf_Nil_iff)
  ultimately show ?thesis
    by (auto simp: qualifies_def qualifyingRow_def rowDateTime_iff)
qed

lemma messyPage_rows:
  "map rowRecord (filter qualifies (tableRows messyPage)) =
     [quake ''4.5'' ''012 km N 45 E of Calatagan (Batangas)'', quake ''2.1'' ''Davao'']"
  by code_simp

text \<open>
  C3: when the page has the data table and at least one qualifying row (six cells or
  more; date, time, magnitude and location not empty once trimmed), extraction returns
  a sequence that is not empty and as long as the number of qualifying rows; its
  records are, in row order, the records of the qualifying rows, each with all its
  fields, and no other row contributes anything.
\<close>

theorem extract_qualifying_rows:
  assumes "tableCount page \<noteq> 0" and "\<exists>cols \<in> set (tableRows page). qualifyingRow cols"
  shows "\<exists>recs. extractEarthquakes page = Inr recs \<and> recs \<noteq> [] \<and>
           length recs = length (filter qualifyingRow (tableRows page)) \<and>
           list_all2 recordOfRow (filter qualifyingRow (tableRows page)) recs"
proof -
  have same: "filter qualifies (tableRows page) = filter qualifyingRow (tableRows page)"
    by (simp add: qualifies_iff [abs_def])
  from assms(2) have ne: "filter qualifyingRow (tableRows page) \<noteq> []"
    by (simp add: filter_empty_conv)
  have "list_all2 recordOfRow rows (map rowRecord rows)" for rows
    by (simp add: list_all2_map2 list_all2_same recordOfRow_rowRecord)
  with assms(1) ne show ?thesis
    by (simp add: extractEarthquakes_def foldl_eachRow same)
qed

theorem extract_qualifying_rows_witness:
  "extractEarthquakes messyPage =
     Inr [quake ''4.5'' ''012 km N 45 E of Calatagan (Batangas)'', quake ''2.1'' ''Davao''] \<and>
   filter qualifyingRow (tableRows messyPage) = [messyRow, sampleRow ''2.1'' ''Davao''] \<and>
   list_all2 recordOfRow [messyRow, sampleRow ''2.1'' ''Davao'']
     [quake ''4.5'' ''012 km N 45 E of Calatagan (Batangas)'', quake ''2.1'' ''Davao'']"
proof -
  have 1: "tableCount messyPage \<noteq> 0"
    by (simp add: messyPage_def)
  have q: "map qualifies (tableRows messyPage) = [False, True, False, True]"
    by code_simp
  then have rows: "filter qualifyingRow (tableRows messyPage) = [messyRow, sampleRow ''2.1'' ''Davao'']"
    by (simp add: messyPage_def qualifies_iff)
  then have 2: "\<exists>cols \<in> set (tableRows messyPage). qualifyingRow cols"
    by (metis filter_empty_conv list.distinct(1))
  have run: "extractEarthquakes messyPage =
      Inr [quake ''4.5'' ''012 km N 45 E of Calatagan (Batangas)'', quake ''2.1'' ''Davao'']"
    using 1 messyPage_rows by (simp add: extractEarthquakes_def foldl_eachRow)
  from extract_qualifying_rows [OF 1 2] run rows show ?thesis
    by simp
qed

text \<open>
  C4: with no matching table extraction fails with the table-not-found error; with a
  table but no qualifying row it fails with the no-valid-data error; it never returns
  the empty sequence.
\<close>

theorem extract_fails_never_empty:
  "(tableCount page = 0 \<longrightarrow> extractEarthquakes page = Inl TableNotFound) \<and>
   (tableCount page \<noteq> 0 \<and> filter qualifies (tableRows page) = [] \<longrightarrow>
      extractEarthquakes page = Inl NoValidData) \<and>
   extractEarthquakes page \<noteq> Inr []"
  by (simp add: extractEarthquakes_def foldl_eachRow)

theorem extract_fails_never_empty_witness:
  "extractEarthquakes noTablePage = Inl TableNotFound \<and>
   extractEarthquakes headerOnlyPage = Inl NoValidData \<and>
   extractEarthquakes invalidRowPage = Inl NoValidData \<and>
   extractEarthquakes samplePage \<noteq> Inr []"
  using extract_fails_never_empty [of noTablePage]
    extract_fails_never_empty [of headerOnlyPage]
    extract_fails_never_empty [of invalidRowPage]
    extract_fails_never_empty [of samplePage]
  by code_simp

section \<open>The cache\<close>

text \<open>
  C1: when the call reaches the request and the attempt fails, the call returns the
  data of the snapshot in the cache, if there is one, and raises the failure
  otherwise; in both cases the cache slot is as it was (only the count of requests
  has grown).
\<close>

theorem fetch_failure_serves_stale:
  assumes "forceRefresh \<or> \<not> isCacheValid now s" and "attempt response = Inl err"
  shows "fetchEarthquakes forceRefresh now response now' s =
           ((case earthquakeCache s of Some entry \<Rightarrow> Inr (data entry) | None \<Rightarrow> Inl err),
            s\<lparr>requests := requests s + 1\<rparr>) \<and>
         earthquakeCache (snd (fetchEarthquakes forceRefresh now response now' s)) =
           earthquakeCache s"
  using assms
  by (auto simp: fetchEarthquakes_def fetchEarthquakes_start_def fetchEarthquakes_resume_def
      split: option.splits)

theorem fetch_failure_serves_stale_witness:
  "fetchEarthquakes False 400000 (Inl NetworkError) 400100 warmServer =
     (Inr sampleQuakes, warmServer\<lparr>requests := 2\<rparr>) \<and>
   fetchEarthquakes True 1001 (Inr invalidRowPage) 1002 warmServer =
     (Inr sampleQuakes, warmServer\<lparr>requests := 2\<rparr>) \<and>
   fetchEarthquakes False 0 (Inr noTablePage) 100 emptyServer =
     (Inl TableNotFound, emptyServer\<lparr>requests := 1\<rparr>)"
proof -
  have stale: "False \<or> \<not> isCacheValid 400000 warmServer"
    by (simp add: isCacheValid_def warmServer_def CACHE_TTL_MS_def)
  have forced: "True \<or> \<not> isCacheValid 1001 warmServer"
    by simp
  have empty: "False \<or> \<not> isCacheValid 0 emptyServer"
    by (simp add: isCacheValid_def emptyServer_def)
  have down: "attempt (Inl NetworkError) = Inl NetworkError"
    by (simp add: attempt_def)
  have novalid: "attempt (Inr invalidRowPage) = Inl NoValidData"
    by code_simp
  have notable: "attempt (Inr noTablePage) = Inl TableNotFound"
    by (simp add: attempt_def extractEarthquakes_def noTablePage_def)
  from fetch_failure_serves_stale [OF stale down, of 400100]
    fetch_failure_serves_stale [OF forced novalid, of 1002]
    fetch_failure_serves_stale [OF empty notable, of 100]
  show ?thesis
    by (simp add: warmServer_def emptyServer_def)
qed

text \<open>
  C5: a call that does not force a refresh and finds a snapshot younger than the TTL
  returns its data and leaves the state, the count of requests included, as it was.
  So of two such calls, the first finding no valid snapshot and fetching one, the
  second made within the TTL of that snapshot, only the first makes a request, and
  both return the fetched records.
\<close>

theorem cached_within_ttl_no_fetch:
  "(earthquakeCache s = Some entry \<and> now - timestamp entry < CACHE_TTL_MS \<longrightarrow>
      fetchEarthquakes False now response now' s = (Inr (data entry), s)) \<and>
   (\<not> isCacheValid now s \<and> attempt response = Inr recs \<and> now2 - now' < CACHE_TTL_MS \<longrightarrow>
      (case fetchEarthquakes False now response now' s of
         (out1, s1) \<Rightarrow>
           (case fetchEarthquakes False now2 response2 now2' s1 of
              (out2, s2) \<Rightarrow>
                out1 = Inr recs \<and> out2 = Inr recs \<and> requests s2 = requests s + 1)))"
  by (auto simp: fetchEarthquakes_def fetchEarthquakes_start_def fetchEarthquakes_resume_def
      isCacheValid_def split: option.splits)

theorem cached_within_ttl_no_fetch_witness:
  "CACHE_TTL_MS = 300000 \<and>
   fetchEarthquakes False 300999 (Inl NetworkError) 301000 warmServer =
     (Inr sampleQuakes, warmServer) \<and>
   (case fetchEarthquakes False 0 (Inr samplePage) 5 emptyServer of
      (out1, s1) \<Rightarrow>
        (case fetchEarthquakes False 300004 (Inl NetworkError) 300010 s1 of
           (out2, s2) \<Rightarrow>
             out1 = Inr [quake ''4.5'' ''Batangas'', quake ''2.1'' ''Davao''] \<and>
             out2 = Inr [quake ''4.5'' ''Batangas'', quake ''2.1'' ''Davao''] \<and>
             requests s2 = 1))"
proof -
  have a: "earthquakeCache warmServer = Some \<lparr>data = sampleQuakes, timestamp = 1000\<rparr> \<and>
      300999 - timestamp \<lparr>data = sampleQuakes, timestamp = 1000\<rparr> < CACHE_TTL_MS"
    by (simp add: warmServer_def CACHE_TTL_MS_def)
  have b: "\<not> isCacheValid 0 emptyServer \<and>
      attempt (Inr samplePage) = Inr [quake ''4.5'' ''Batangas'', quake ''2.1'' ''Davao''] \<and>
      300004 - 5 < CACHE_TTL_MS"
    by (simp add: isCacheValid_def emptyServer_def CACHE_TTL_MS_def attempt_def
        samplePage_extract)
  have 1: "fetchEarthquakes False 300999 (Inl NetworkError) 301000 warmServer =
      (Inr (data \<lparr>data = sampleQuakes, timestamp = 1000\<rparr>), warmServer)"
    using cached_within_ttl_no_fetch [THEN conjunct1, THEN mp, OF a] .
  have 2: "case fetchEarthquakes False 0 (Inr samplePage) 5 emptyServer of
      (out1, s1) \<Rightarrow>
        (case fetchEarthquakes False 300004 (Inl NetworkError) 300010 s1 of
           (out2, s2) \<Rightarrow>
             out1 = Inr [quake ''4.5'' ''Batangas'', quake ''2.1'' ''Davao''] \<and>
             out2 = Inr [quake ''4.5'' ''Batangas'', quake ''2.1'' ''Davao''] \<and>
             requests s2 = requests emptyServer + 1)"
    using cached_within_ttl_no_fetch [THEN conjunct2, THEN mp, OF b] .
  have "requests emptyServer + 1 = 1"
    by (simp add: emptyServer_def)
  with 1 2 show ?thesis
    by (simp add: CACHE_TTL_MS_def)
qed

text \<open>
  Every sequence a call returns is a snapshot's: not empty, with no \<open>NaN\<close>
  magnitude. These are the sequences the route handlers compute on.
\<close>

lemma resume_cache_ok:
  assumes "cache_ok s" and "fetchEarthquakes_resume response now s = (out, s1)"
  shows "cache_ok s1 \<and> (\<forall>recs. out = Inr recs \<longrightarrow> recs \<noteq> [] \<and> numeric recs)"
proof (cases "attempt response")
  case (Inl err)
  with assms show ?thesis
    by (auto simp: fetchEarthquakes_resume_def cache_ok_def split: option.splits)
next
  case (Inr recs)
  then have "recs \<noteq> [] \<and> numeric recs"
    by (cases response) (auto simp: attempt_def dest: extract_numeric)
  with Inr assms show ?thesis
    by (auto simp: fetchEarthquakes_resume_def cache_ok_def)
qed

lemma fetchEarthquakes_cache_ok:
  assumes "cache_ok s" and "fetchEarthquakes forceRefresh now response now' s = (out, s1)"
  shows "cache_ok s1 \<and> (\<forall>recs. out = Inr recs \<longrightarrow> recs \<noteq> [] \<and> numeric recs)"
proof (cases "fetchEarthquakes_start forceRefresh now s")
  case (Pair c s0)
  show ?thesis
  proof (cases c)
    case (Returned recs)
    with Pair assms show ?thesis
      by (auto simp: fetchEarthquakes_def fetchEarthquakes_start_def cache_ok_def
          split: option.splits if_splits)
  next
    case Awaiting
    with Pair have s0: "s0 = s\<lparr>requests := requests s + 1\<rparr>"
      by (auto simp: fetchEarthquakes_start_def split: option.splits if_splits)
    with assms(1) have "cache_ok s0"
      by (simp add: cache_ok_def)
    moreover from Pair Awaiting assms(2) have "fetchEarthquakes_resume response now' s0 = (out, s1)"
      by (simp add: fetchEarthquakes_def)
    ultimately show ?thesis
      by (rule resume_cache_ok)
  qed
qed

subsection \<open>Calls that arrive together\<close>

lemma start_all_empty_cache:
  "earthquakeCache s = None \<Longrightarrow>
   start_all nows s =
     (replicate (length nows) Awaiting, s\<lparr>requests := requests s + length nows\<rparr>)"
  by (induction nows arbitrary: s) (simp_all add: fetchEarthquakes_start_def)

lemma requests_resume: "requests (snd (fetchEarthquakes_resume response now s)) = requests s"
  by (simp add: fetchEarthquakes_resume_def split: sum.splits option.splits)

lemma requests_finish_all: "requests (snd (finish_all cs rs s)) = requests s"
proof (induction cs rs s rule: finish_all.induct)
  case (4 cs response now rs s)
  let ?p = "fetchEarthquakes_resume response now s"
  from 4 [OF refl, of "fst ?p" "snd ?p"]
  have "requests (snd (finish_all cs rs (snd ?p))) = requests (snd ?p)"
    by simp
  then show ?case
    by (simp add: split_beta requests_resume)
qed (simp_all add: split_beta)

lemma length_finish_all:
  "length cs \<le> length rs \<Longrightarrow> length (fst (finish_all cs rs s)) = length cs"
proof (induction cs rs s rule: finish_all.induct)
  case (4 cs response now rs s)
  let ?p = "fetchEarthquakes_resume response now s"
  from 4(1) [OF refl, of "fst ?p" "snd ?p"] 4(2)
  have "length (fst (finish_all cs rs (snd ?p))) = length cs"
    by simp
  then show ?case
    by (simp add: split_beta)
qed (simp_all add: split_beta)

lemma requests_simultaneous:
  "earthquakeCache s = None \<Longrightarrow>
   requests (snd (simultaneous nows responses s)) = requests s + length nows"
  by (simp add: simultaneous_def start_all_empty_cache requests_finish_all)

lemma finish_all_same:
  assumes "\<forall>r\<in>set rs. attempt (fst r) = out" and "n \<le> length rs"
    and "earthquakeCache s = None \<or> (\<exists>recs. out = Inr recs)"
  shows "fst (finish_all (replicate n Awaiting) rs s) = replicate n out"
  using assms
proof (induction n arbitrary: rs s)
  case 0
  then show ?case by simp
next
  case (Suc n)
  then obtain response now rest where rs: "rs = (response, now) # rest"
    by (cases rs) auto
  with Suc.prems have att: "attempt response = out"
    by simp
  let ?s1 = "snd (fetchEarthquakes_resume response now s)"
  have 1: "fst (fetchEarthquakes_resume response now s) = out"
    using att Suc.prems(3)
    by (auto simp: fetchEarthquakes_resume_def split: sum.splits option.splits)
  have 2: "earthquakeCache ?s1 = None \<or> (\<exists>recs. out = Inr recs)"
    using att Suc.prems(3)
    by (auto simp: fetchEarthquakes_resume_def split: sum.splits option.splits)
  have "fst (finish_all (replicate n Awaiting) rest ?s1) = replicate n out"
    using Suc.IH [of rest ?s1] Suc.prems rs 2 by simp
  with 1 show ?case
    by (simp add: rs split_beta)
qed

text \<open>
  C10, as stated, fails: fifty calls that arrive together against the empty cache
  make fifty requests, not one.
\<close>

theorem fifty_simultaneous_calls_fifty_requests:
  "requests (snd (simultaneous (replicate 50 0) (replicate 50 (Inr samplePage, 1)) emptyServer))
     = 50"
proof -
  have "earthquakeCache emptyServer = None"
    by (simp add: emptyServer_def)
  from requests_simultaneous [OF this] show ?thesis
    by (simp add: emptyServer_def)
qed

text \<open>
  C10, amended: the calls are not coordinated. Of \<open>n\<close> calls that arrive together
  against the empty cache, each makes its own request, \<open>n\<close> in all, and every
  caller is answered; when all the responses give the same outcome (the same records,
  or the same error), all the callers receive that outcome.
\<close>

theorem simultaneous_calls_each_fetch:
  assumes "earthquakeCache s = None" and "length responses = length nows"
  shows "requests (snd (simultaneous nows responses s)) = requests s + length nows \<and>
         length (fst (simultaneous nows responses s)) = length nows \<and>
         ((\<forall>r\<in>set responses. attempt (fst r) = out) \<longrightarrow>
            fst (simultaneous nows responses s) = replicate (length nows) out)"
proof -
  let ?s1 = "s\<lparr>requests := requests s + length nows\<rparr>"
  have run: "simultaneous nows responses s =
      finish_all (replicate (length nows) Awaiting) responses ?s1"
    by (simp add: simultaneous_def start_all_empty_cache [OF assms(1)])
  have "earthquakeCache ?s1 = None"
    using assms(1) by simp
  then have "(\<forall>r\<in>set responses. attempt (fst r) = out) \<longrightarrow>
      fst (finish_all (replicate (length nows) Awaiting) responses ?s1) =
        replicate (length nows) out"
    using finish_all_same [of responses out "length nows" ?s1] assms(2) by simp
  then show ?thesis
    unfolding run using assms(2) by (simp add: requests_finish_all length_finish_all)
qed

theorem simultaneous_calls_each_fetch_witness:
  "requests (snd (simultaneous [0, 0, 0]
      [(Inr samplePage, 7), (Inr samplePage, 8), (Inr samplePage, 9)] emptyServer)) = 3 \<and>
   fst (simultaneous [0, 0, 0]
      [(Inr samplePage, 7), (Inr samplePage, 8), (Inr samplePage, 9)] emptyServer) =
     replicate 3 (Inr [quake ''4.5'' ''Batangas'', quake ''2.1'' ''Davao''])"
proof -
  have 1: "earthquakeCache emptyServer = None"
    by (simp add: emptyServer_def)
  have 2: "length [(Inr samplePage, 7 :: int), (Inr samplePage, 8), (Inr samplePage, 9)] =
      length [0 :: int, 0, 0]"
    by simp
  have 3: "\<forall>r\<in>set [(Inr samplePage, 7 :: int), (Inr samplePage, 8), (Inr samplePage, 9)].
      attempt (fst r) = Inr [quake ''4.5'' ''Batangas'', quake ''2.1'' ''Davao'']"
    by (simp add: attempt_def samplePage_extract)
  from simultaneous_calls_each_fetch [OF 1 2,
      of "Inr [quake ''4.5'' ''Batangas'', quake ''2.1'' ''Davao'']"] 3
  show ?thesis
    by (simp add: emptyServer_def numeral_3_eq_3)
qed

section \<open>The filters\<close>

lemma filterByMagnitude_bounds:
  "maxMag = None \<or> (\<exists>m. maxMag = Some m \<and> truthy m) \<Longrightarrow>
   filterByMagnitude earthquakes minMag maxMag =
     filter (\<lambda>eq. js_ge (magnitudeNumeric eq) minMag \<and>
               (case maxMag of None \<Rightarrow> True | Some m \<Rightarrow> js_le (magnitudeNumeric eq) m))
       earthquakes"
  unfolding filterByMagnitude_def Let_def
  by (rule filter_cong) (auto split: option.splits)

lemma filterByMagnitude_falsy:
  "\<not> truthy m \<Longrightarrow>
   filterByMagnitude earthquakes minMag (Some m) =
     filter (\<lambda>eq. js_ge (magnitudeNumeric eq) minMag) earthquakes"
  unfolding filterByMagnitude_def Let_def
  by (rule filter_cong) auto

text \<open>
  C2 says that with \<open>max = 0\<close> only records of magnitude \<open>0\<close> are kept. The code
  tests \<open>!maxMag\<close>, which holds for \<open>0\<close> as for a missing argument: with
  \<open>min = 0\<close> and \<open>max = 0\<close> a record of magnitude \<open>5\<close> is kept.
\<close>

theorem filterByMagnitude_max_zero:
  "filterByMagnitude [quake ''5.0'' ''Batangas''] (Num 0) (Some (Num 0)) =
     [quake ''5.0'' ''Batangas''] \<and>
   magnitudeNumeric (quake ''5.0'' ''Batangas'') = Num 5"
  by code_simp

subsection \<open>Ignoring case\<close>

lemma zip_capitals_fwd:
  "(c, d) \<in> set (zip capitals smalls) \<Longrightarrow>
   isCapital c \<and> (of_char d :: nat) = of_char c + 32"
  by (auto simp: capitals_def smalls_def isCapital_def)

lemma zip_capitals_codes:
  assumes "isCapital c" and "(of_char d :: nat) = of_char c + 32"
  shows "(of_char c :: nat, of_char d :: nat) \<in>
           set (map (\<lambda>p. (of_char (fst p), of_char (snd p))) (zip capitals smalls))"
proof -
  have "65 \<le> (of_char c :: nat) \<and> (of_char c :: nat) \<le> 90 \<or>
      192 \<le> (of_char c :: nat) \<and> (of_char c :: nat) \<le> 222 \<and> (of_char c :: nat) \<noteq> 215"
    using assms(1) by (simp add: isCapital_def)
  then have "(of_char c :: nat) \<in>
     {0x41, 0x42, 0x43, 0x44, 0x45, 0x46, 0x47, 0x48, 0x49, 0x4A, 0x4B, 0x4C, 0x4D,
      0x4E, 0x4F, 0x50, 0x51, 0x52, 0x53, 0x54, 0x55, 0x56, 0x57, 0x58, 0x59, 0x5A,
      0xC0, 0xC1, 0xC2, 0xC3, 0xC4, 0xC5, 0xC6, 0xC7, 0xC8, 0xC9, 0xCA, 0xCB, 0xCC,
      0xCD, 0xCE, 0xCF, 0xD0, 0xD1, 0xD2, 0xD3, 0xD4, 0xD5, 0xD6, 0xD8, 0xD9, 0xDA,
      0xDB, 0xDC, 0xDD, 0xDE}"
    by (simp only: insert_iff empty_iff) arith
  then show ?thesis
    unfolding assms(2) by (auto simp: capitals_def smalls_def)
qed

lemma zip_capitals:
  "(c, d) \<in> set (zip capitals smalls) \<longleftrightarrow>
   isCapital c \<and> (of_char d :: nat) = of_char c + 32"
proof
  assume "(c, d) \<in> set (zip capitals smalls)"
  then show "isCapital c \<and> (of_char d :: nat) = of_char c + 32"
    by (rule zip_capitals_fwd)
next
  assume "isCapital c \<and> (of_char d :: nat) = of_char c + 32"
  then have "(of_char c :: nat, of_char d :: nat) \<in>
      (\<lambda>p. (of_char (fst p), of_char (snd p))) ` set (zip capitals smalls)"
    using zip_capitals_codes [of c d] by simp
  then obtain p where p: "p \<in> set (zip capitals smalls)"
    and eq: "(of_char c :: nat) = of_char (fst p)" "(of_char d :: nat) = of_char (snd p)"
    by auto
  from eq have "p = (c, d)"
    by (cases p) simp
  with p show "(c, d) \<in> set (zip capitals smalls)"
    by simp
qed

lemma lowerChar_code: "(of_char (lowerChar c) :: nat) = (if isCapital c then of_char c + 32 else of_char c)"
  by (auto simp: lowerChar_def isCapital_def)

lemma lowerChar_eq_iff: "lowerChar c = lowerChar d \<longleftrightarrow> sameLetter c d"
proof -
  have "lowerChar c = lowerChar d \<longleftrightarrow> (of_char (lowerChar c) :: nat) = of_char (lowerChar d)"
    by simp
  also have "\<dots> \<longleftrightarrow> sameLetter c d"
    unfolding lowerChar_code sameLetter_def zip_capitals
    by (auto simp: isCapital_def)
  finally show ?thesis .
qed

lemma toLowerCase_eq_iff: "toLowerCase s = toLowerCase t \<longleftrightarrow> sameIgnoringCase s t"
proof -
  have "toLowerCase s = toLowerCase t \<longleftrightarrow> list_all2 (=) (map lowerChar s) (map lowerChar t)"
    by (simp add: toLowerCase_def list.rel_eq)
  also have "\<dots> \<longleftrightarrow> list_all2 (\<lambda>c d. lowerChar c = lowerChar d) s t"
    by (simp add: list_all2_map1 list_all2_map2)
  finally show ?thesis
    by (simp add: sameIgnoringCase_def lowerChar_eq_iff [abs_def])
qed

lemma str_includes_sublist: "str_includes s t \<longleftrightarrow> sublist t s"
  by (induction s) (auto simp: startsWith_prefix sublist_Cons_right)

lemma includes_ignoring_case:
  "str_includes (toLowerCase s) (toLowerCase t) \<longleftrightarrow>
   (\<exists>sub. sublist sub s \<and> sameIgnoringCase sub t)"
proof
  assume "str_includes (toLowerCase s) (toLowerCase t)"
  then have "sublist (map lowerChar t) (map lowerChar s)"
    by (simp add: str_includes_sublist toLowerCase_def)
  then obtain sub where "sublist sub s" "map lowerChar t = map lowerChar sub"
    by (auto dest: sublist_map_rightE)
  then show "\<exists>sub. sublist sub s \<and> sameIgnoringCase sub t"
    using toLowerCase_eq_iff [of sub t] by (auto simp: toLowerCase_def)
next
  assume "\<exists>sub. sublist sub s \<and> sameIgnoringCase sub t"
  then obtain sub where "sublist sub s" "toLowerCase sub = toLowerCase t"
    by (auto simp: toLowerCase_eq_iff)
  then show "str_includes (toLowerCase s) (toLowerCase t)"
    using map_mono_sublist [of sub s lowerChar]
    by (simp add: str_includes_sublist toLowerCase_def)
qed

text \<open>
  C9: filtering by location keeps exactly the records whose location contains the
  search string under comparison ignoring case; so two search strings that are the
  same ignoring case (two casings of one string) give the same result.
\<close>

theorem filterByLocation_case_insensitive:
  "filterByLocation earthquakes loc =
     filter (\<lambda>eq. \<exists>sub. sublist sub (location eq) \<and> sameIgnoringCase sub loc) earthquakes \<and>
   (sameIgnoringCase loc loc' \<longrightarrow>
      filterByLocation earthquakes loc = filterByLocation earthquakes loc')"
  by (simp add: filterByLocation_def includes_ignoring_case toLowerCase_eq_iff [symmetric])

theorem filterByLocation_case_insensitive_witness:
  "filterByLocation placeQuakes ''BATANGAS'' = filterByLocation placeQuakes ''batangas'' \<and>
   filterByLocation placeQuakes ''BATANGAS'' =
     [quake ''4.5'' ''012 km N 45 E of Calatagan (Batangas)''] \<and>
   filterByLocation placeQuakes (''PE'' @ [CHR 0xD1] @ ''ABLANCA'') =
     filterByLocation placeQuakes (''pe'' @ [CHR 0xF1] @ ''ablanca'') \<and>
   filterByLocation placeQuakes (''PE'' @ [CHR 0xD1] @ ''ABLANCA'') =
     [quake ''3.1'' (''005 km S 10 W of Pe'' @ [CHR 0xF1] @ ''ablanca (Cagayan)'')]"
proof -
  have same1: "sameIgnoringCase ''BATANGAS'' ''batangas''"
    by code_simp
  have same2: "sameIgnoringCase (''PE'' @ [CHR 0xD1] @ ''ABLANCA'') (''pe'' @ [CHR 0xF1] @ ''ablanca'')"
    by code_simp
  have low1: "filterByLocation placeQuakes ''batangas'' =
     [quake ''4.5'' ''012 km N 45 E of Calatagan (Batangas)'']"
    by code_simp
  have low2: "filterByLocation placeQuakes (''pe'' @ [CHR 0xF1] @ ''ablanca'') =
     [quake ''3.1'' (''005 km S 10 W of Pe'' @ [CHR 0xF1] @ ''ablanca (Cagayan)'')]"
    by code_simp
  have 1: "filterByLocation placeQuakes ''BATANGAS'' = filterByLocation placeQuakes ''batangas''"
    using filterByLocation_case_insensitive [THEN conjunct2, THEN mp, OF same1] .
  have 2: "filterByLocation placeQuakes (''PE'' @ [CHR 0xD1] @ ''ABLANCA'') =
      filterByLocation placeQuakes (''pe'' @ [CHR 0xF1] @ ''ablanca'')"
    using filterByLocation_case_insensitive [THEN conjunct2, THEN mp, OF same2] .
  from 1 2 low1 low2 show ?thesis
    by simp
qed

section \<open>The top route\<close>

lemma sub_gt_zero: "\<not> isNaN a \<Longrightarrow> \<not> isNaN b \<Longrightarrow> js_gt (js_sub b a) (Num 0) = js_lt a b"
  by (cases a; cases b) (auto simp: js_gt_def)

lemma sub_self_not_gt: "\<not> js_gt (js_sub a a) (Num 0)"
  by (cases a) (auto simp: js_gt_def)

lemma js_lt_trans_ge: "\<not> js_lt a b \<Longrightarrow> \<not> js_lt b c \<Longrightarrow> \<not> isNaN b \<Longrightarrow> \<not> js_lt a c"
  by (cases a; cases b; cases c) auto

lemma js_lt_imp_ge: "js_lt a b \<Longrightarrow> js_ge b a"
  by (cases a; cases b) (auto simp: js_ge_def js_le_def)

lemma set_insert_by: "set (insert_by cmp x ys) = insert x (set ys)"
  by (induction ys) auto

lemma mset_insert_by: "mset (insert_by cmp x ys) = add_mset x (mset ys)"
  by (induction ys) auto

lemma array_sort_Cons: "array_sort cmp (x # xs) = insert_by cmp x (array_sort cmp xs)"
  by (simp add: array_sort_def)

lemma array_sort_Nil: "array_sort cmp [] = []"
  by (simp add: array_sort_def)

lemma mset_array_sort: "mset (array_sort cmp xs) = mset xs"
  by (induction xs) (simp_all add: array_sort_Cons array_sort_Nil mset_insert_by)

lemma sorted_insert_by:
  assumes "sorted_wrt (\<lambda>a b. js_ge (magnitudeNumeric a) (magnitudeNumeric b)) ys"
    and "\<not> isNaN (magnitudeNumeric x)" and "\<forall>y\<in>set ys. \<not> isNaN (magnitudeNumeric y)"
  shows "sorted_wrt (\<lambda>a b. js_ge (magnitudeNumeric a) (magnitudeNumeric b))
           (insert_by byMagnitude x ys)"
  using assms
proof (induction ys)
  case Nil
  then show ?case by simp
next
  case (Cons y ys)
  show ?case
  proof (cases "js_lt (magnitudeNumeric x) (magnitudeNumeric y)")
    case True
    with Cons show ?thesis
      by (auto simp: sub_gt_zero set_insert_by js_lt_imp_ge)
  next
    case False
    have "js_ge (magnitudeNumeric x) (magnitudeNumeric z)" if "z \<in> set (y # ys)" for z
    proof -
      have "js_ge (magnitudeNumeric y) (magnitudeNumeric z) \<or> z = y"
        using that Cons.prems(1) by auto
      then have "\<not> js_lt (magnitudeNumeric y) (magnitudeNumeric z)"
        by (cases "magnitudeNumeric y"; cases "magnitudeNumeric z")
          (auto simp: js_ge_def js_le_def)
      with False have "\<not> js_lt (magnitudeNumeric x) (magnitudeNumeric z)"
        using js_lt_trans_ge Cons.prems(3) by (metis list.set_intros(1))
      with that Cons.prems(2,3) show ?thesis
        by (auto simp: js_ge_def js_le_def)
    qed
    with False Cons.prems show ?thesis
      by (simp add: sub_gt_zero)
  qed
qed

lemma sorted_array_sort:
  "\<forall>x\<in>set xs. \<not> isNaN (magnitudeNumeric x) \<Longrightarrow>
   sorted_wrt (\<lambda>a b. js_ge (magnitudeNumeric a) (magnitudeNumeric b))
     (array_sort byMagnitude xs)"
proof (induction xs)
  case Nil
  then show ?case by (simp add: array_sort_Nil)
next
  case (Cons x xs)
  have "\<forall>y\<in>set (array_sort byMagnitude xs). \<not> isNaN (magnitudeNumeric y)"
    using Cons.prems mset_array_sort [of byMagnitude xs]
    by (metis list.set_intros(2) set_mset_mset)
  with Cons show ?case
    by (simp add: array_sort_Cons sorted_insert_by)
qed

text \<open>Insertion passes only over records of another magnitude: the sort is stable.\<close>

lemma filter_insert_by:
  "filter (\<lambda>e. magnitudeNumeric e = m) (insert_by byMagnitude x ys) =
   filter (\<lambda>e. magnitudeNumeric e = m) (x # ys)"
proof (induction ys)
  case Nil
  then show ?case by simp
next
  case (Cons y ys)
  show ?case
  proof (cases "js_gt (js_sub (magnitudeNumeric y) (magnitudeNumeric x)) (Num 0)")
    case True
    then have "magnitudeNumeric x \<noteq> magnitudeNumeric y"
      using sub_self_not_gt by metis
    with True Cons show ?thesis by auto
  next
    case False
    then show ?thesis by simp
  qed
qed

lemma filter_array_sort:
  "filter (\<lambda>e. magnitudeNumeric e = m) (array_sort byMagnitude xs) =
   filter (\<lambda>e. magnitudeNumeric e = m) xs"
  by (induction xs) (simp_all add: array_sort_Nil array_sort_Cons filter_insert_by)

text \<open>
  C6: for records whose \<open>magnitudeNumeric\<close> is a number (as \<open>parseMagnitude\<close> makes
  it) and every \<open>n\<close>, so for \<open>1 <= n <= 50\<close>, the top \<open>n\<close> are in descending order of
  \<open>magnitudeNumeric\<close>, are \<open>min n (length earthquakes)\<close> many, form a sub-multiset
  of the input, and keep records of equal \<open>magnitudeNumeric\<close> in their original
  order: those of a given magnitude in the output are the first ones of that magnitude
  in the input, in the same order.
\<close>

theorem topEarthquakes_sorted_stable:
  assumes "\<forall>eq\<in>set earthquakes. \<not> isNaN (magnitudeNumeric eq)"
  shows "sorted_wrt (\<lambda>a b. js_ge (magnitudeNumeric a) (magnitudeNumeric b))
           (topEarthquakes earthquakes n) \<and>
         length (topEarthquakes earthquakes n) = min n (length earthquakes) \<and>
         mset (topEarthquakes earthquakes n) \<subseteq># mset earthquakes \<and>
         (\<forall>m. prefix (filter (\<lambda>eq. magnitudeNumeric eq = m) (topEarthquakes earthquakes n))
                     (filter (\<lambda>eq. magnitudeNumeric eq = m) earthquakes))"
proof -
  let ?s = "array_sort byMagnitude earthquakes"
  have 1: "sorted_wrt (\<lambda>a b. js_ge (magnitudeNumeric a) (magnitudeNumeric b)) (take n ?s)"
    using sorted_array_sort [OF assms] by (rule sorted_wrt_take)
  have "length ?s = length earthquakes"
    using mset_array_sort [of byMagnitude earthquakes] by (metis size_mset)
  then have 2: "length (take n ?s) = min n (length earthquakes)"
    by simp
  have "mset (take n ?s) \<subseteq># mset ?s"
    by (metis append_take_drop_id mset_append mset_subset_eq_add_left)
  then have 3: "mset (take n ?s) \<subseteq># mset earthquakes"
    by (simp add: mset_array_sort)
  have 4: "prefix (filter (\<lambda>eq. magnitudeNumeric eq = m) (take n ?s))
             (filter (\<lambda>eq. magnitudeNumeric eq = m) earthquakes)" for m
    using filter_mono_prefix [OF take_is_prefix, of "\<lambda>eq. magnitudeNumeric eq = m" n ?s]
    by (simp add: filter_array_sort)
  from 1 2 3 4 show ?thesis
    by (simp add: topEarthquakes_def)
qed

theorem topEarthquakes_sorted_stable_witness:
  "topEarthquakes sampleQuakes 3 =
     [quake ''5.8'' ''Davao Oriental'',
      quake ''4.5'' ''012 km N 45 E of Calatagan (Batangas)'',
      quake ''4.5'' ''Surigao Del Sur''] \<and>
   sorted_wrt (\<lambda>a b. js_ge (magnitudeNumeric a) (magnitudeNumeric b))
     (topEarthquakes sampleQuakes 3) \<and>
   length (topEarthquakes sampleQuakes 3) = 3 \<and>
   mset (topEarthquakes sampleQuakes 3) \<subseteq># mset sampleQuakes"
proof -
  have nan: "\<forall>eq\<in>set sampleQuakes. \<not> isNaN (magnitudeNumeric eq)"
    by code_simp
  have val: "topEarthquakes sampleQuakes 3 =
     [quake ''5.8'' ''Davao Oriental'',
      quake ''4.5'' ''012 km N 45 E of Calatagan (Batangas)'',
      quake ''4.5'' ''Surigao Del Sur'']"
    by code_simp
  have len: "length sampleQuakes = 4"
    by (simp add: sampleQuakes_def)
  from topEarthquakes_sorted_stable [OF nan, of 3] val len show ?thesis
    by simp
qed

section \<open>The stats route\<close>

text \<open>
  C7: on the empty sequence the computation of the statistics raises (the
  \<open>TypeError\<close> of \<open>reduce\<close> on an empty array) and returns no statistics, so no
  \<open>NaN\<close> and no default reaches the caller.
\<close>

theorem computeStats_empty: "computeStats [] = Inl TypeError"
  by (simp add: computeStats_def reduce1_def)

lemma three_values:
  "map magnitudeNumeric threeQuakes =
     [Num (3715469692580659 / 2 ^ 50), Num (3715469692580659 / 2 ^ 50), Num (3715469692580659 / 2 ^ 50)]"
  by code_simp

lemma three_average:
  "map_sum id (average \<circ> stats_magnitude) (computeStats threeQuakes) =
     Inr (Num (7430939385161317 / 2 ^ 51))"
  by code_simp


lemma js_le_trans: "js_le a b \<Longrightarrow> js_le b c \<Longrightarrow> js_le a c"
  by (cases a; cases b; cases c) (auto simp: js_le_def)

lemma js_le_refl: "\<not> isNaN a \<Longrightarrow> js_le a a"
  by (cases a) (auto simp: js_le_def)

lemma max2_cases: "\<not> isNaN a \<Longrightarrow> \<not> isNaN b \<Longrightarrow>
  (max2 a b = a \<or> max2 a b = b) \<and> js_le a (max2 a b) \<and> js_le b (max2 a b)"
  by (cases a; cases b) (auto simp: max2_def js_le_def)

lemma min2_cases: "\<not> isNaN a \<Longrightarrow> \<not> isNaN b \<Longrightarrow>
  (min2 a b = a \<or> min2 a b = b) \<and> js_le (min2 a b) a \<and> js_le (min2 a b) b"
  by (cases a; cases b) (auto simp: min2_def js_le_def)

lemma foldl_max2:
  assumes "\<not> isNaN a" and "\<forall>v\<in>set vs. \<not> isNaN v"
  shows "foldl max2 a vs \<in> set (a # vs) \<and> (\<forall>v\<in>set (a # vs). js_le v (foldl max2 a vs))"
  using assms
proof (induction vs arbitrary: a)
  case Nil
  then show ?case by (simp add: js_le_refl)
next
  case (Cons v vs)
  then have nv: "\<not> isNaN v" and rest: "\<forall>w\<in>set vs. \<not> isNaN w"
    by auto
  note m = max2_cases [OF Cons.prems(1) nv]
  from m Cons.prems(1) nv have "\<not> isNaN (max2 a v)"
    by auto
  from Cons.IH [OF this rest]
  have in_set: "foldl max2 (max2 a v) vs \<in> set (max2 a v # vs)"
    and ub: "\<forall>w\<in>set (max2 a v # vs). js_le w (foldl max2 (max2 a v) vs)"
    by auto
  from ub have top: "js_le (max2 a v) (foldl max2 (max2 a v) vs)"
    by simp
  from m top have "js_le a (foldl max2 (max2 a v) vs)" "js_le v (foldl max2 (max2 a v) vs)"
    by (blast intro: js_le_trans)+
  with in_set ub m show ?case
    by auto
qed

lemma foldl_min2:
  assumes "\<not> isNaN a" and "\<forall>v\<in>set vs. \<not> isNaN v"
  shows "foldl min2 a vs \<in> set (a # vs) \<and> (\<forall>v\<in>set (a # vs). js_le (foldl min2 a vs) v)"
  using assms
proof (induction vs arbitrary: a)
  case Nil
  then show ?case by (simp add: js_le_refl)
next
  case (Cons v vs)
  then have nv: "\<not> isNaN v" and rest: "\<forall>w\<in>set vs. \<not> isNaN w"
    by auto
  note m = min2_cases [OF Cons.prems(1) nv]
  from m Cons.prems(1) nv have "\<not> isNaN (min2 a v)"
    by auto
  from Cons.IH [OF this rest]
  have in_set: "foldl min2 (min2 a v) vs \<in> set (min2 a v # vs)"
    and lb: "\<forall>w\<in>set (min2 a v # vs). js_le (foldl min2 (min2 a v) vs) w"
    by auto
  from lb have bot: "js_le (foldl min2 (min2 a v) vs) (min2 a v)"
    by simp
  from m bot have "js_le (foldl min2 (min2 a v) vs) a" "js_le (foldl min2 (min2 a v) vs) v"
    by (blast intro: js_le_trans)+
  with in_set lb m show ?case
    by auto
qed

lemma js_le_NegInfinity: "js_le v NegInfinity \<Longrightarrow> v = NegInfinity"
  by (cases v) (auto simp: js_le_def)

lemma js_le_Infinity: "js_le Infinity v \<Longrightarrow> v = Infinity"
  by (cases v) (auto simp: js_le_def)

lemma greatest_Math_max:
  assumes "vs \<noteq> []" and "\<forall>v\<in>set vs. \<not> isNaN v"
  shows "greatest vs (Math_max vs)"
proof -
  have "\<not> isNaN NegInfinity" by simp
  from foldl_max2 [OF this assms(2)]
  have in_set: "Math_max vs \<in> set (NegInfinity # vs)"
    and ub: "\<forall>v\<in>set vs. js_le v (Math_max vs)"
    by (auto simp: Math_max_def)
  have "Math_max vs \<in> set vs"
  proof (cases "Math_max vs = NegInfinity")
    case True
    from assms(1) obtain v where v: "v \<in> set vs"
      by (cases vs) auto
    with ub True have "v = NegInfinity"
      by (auto dest: js_le_NegInfinity)
    with v True show ?thesis by simp
  next
    case False
    with in_set show ?thesis by simp
  qed
  with ub show ?thesis
    by (simp add: greatest_def)
qed

lemma least_Math_min:
  assumes "vs \<noteq> []" and "\<forall>v\<in>set vs. \<not> isNaN v"
  shows "least vs (Math_min vs)"
proof -
  have "\<not> isNaN Infinity" by simp
  from foldl_min2 [OF this assms(2)]
  have in_set: "Math_min vs \<in> set (Infinity # vs)"
    and lb: "\<forall>v\<in>set vs. js_le (Math_min vs) v"
    by (auto simp: Math_min_def)
  have "Math_min vs \<in> set vs"
  proof (cases "Math_min vs = Infinity")
    case True
    from assms(1) obtain v where v: "v \<in> set vs"
      by (cases vs) auto
    with lb True have "v = Infinity"
      by (auto dest: js_le_Infinity)
    with v True show ?thesis by simp
  next
    case False
    with in_set show ?thesis by simp
  qed
  with lb show ?thesis
    by (simp add: least_def)
qed

lemma foldl_add_sum64:
  "sumFits acc xs \<Longrightarrow> foldl js_add (Num acc) (map Num xs) = Num (sum64 acc xs)"
  by (induction xs arbitrary: acc) (simp_all add: round64_def)

lemma summaryOf_summarise:
  assumes "vs \<noteq> []" and "\<forall>v\<in>set vs. \<not> isNaN v"
  shows "summaryOf vs (summarise vs)"
proof -
  have "average (summarise vs) = round64 (sum64 0 xs / real (length xs))"
    if "vs = map Num xs" "sumFits 0 xs" for xs
  proof -
    from that(1) assms(1) have "real (length xs) \<noteq> 0"
      by auto
    with that show ?thesis
      by (simp add: summarise_def foldl_add_sum64)
  qed
  with greatest_Math_max [OF assms] least_Math_min [OF assms] show ?thesis
    by (simp add: summaryOf_def summarise_def)
qed

lemma js_lt_trans: "js_lt a b \<Longrightarrow> js_lt b c \<Longrightarrow> js_lt a c"
  by (cases a; cases b; cases c) auto

lemma js_le_lt_trans: "js_le a b \<Longrightarrow> js_lt b c \<Longrightarrow> js_lt a c"
  by (cases a; cases b; cases c) (auto simp: js_le_def)

text \<open>
  The reducer keeps the record it holds unless the next one is strictly stronger: the
  result is the first record of maximal magnitude.
\<close>

lemma strongest_first_maximal:
  assumes "\<forall>eq\<in>set (x # rest). \<not> isNaN (magnitudeNumeric eq)"
  shows "\<exists>pre post. x # rest = pre @ foldl stronger x rest # post \<and>
           (\<forall>p\<in>set pre. js_lt (magnitudeNumeric p) (magnitudeNumeric (foldl stronger x rest))) \<and>
           (\<forall>q\<in>set post. js_le (magnitudeNumeric q) (magnitudeNumeric (foldl stronger x rest)))"
  using assms
proof (induction rest rule: rev_induct)
  case Nil
  show ?case
    by (rule exI [of _ "[]"], rule exI [of _ "[]"]) simp
next
  case (snoc y rest)
  let ?r = "foldl stronger x rest"
  from snoc obtain pre post where dec: "x # rest = pre @ ?r # post"
    and pre: "\<forall>p\<in>set pre. js_lt (magnitudeNumeric p) (magnitudeNumeric ?r)"
    and post: "\<forall>q\<in>set post. js_le (magnitudeNumeric q) (magnitudeNumeric ?r)"
    by auto
  have "?r \<in> set (x # rest)"
    unfolding dec by simp
  with snoc.prems have nn: "\<not> isNaN (magnitudeNumeric ?r)" "\<not> isNaN (magnitudeNumeric y)"
    by auto
  show ?case
  proof (cases "js_lt (magnitudeNumeric ?r) (magnitudeNumeric y)")
    case True
    have "\<forall>p\<in>set (x # rest). js_lt (magnitudeNumeric p) (magnitudeNumeric y)"
      unfolding dec using pre post True js_lt_trans js_le_lt_trans by auto
    with True show ?thesis
      by (intro exI [of _ "x # rest"] exI [of _ "[]"]) (simp add: js_gt_def)
  next
    case False
    then have "js_le (magnitudeNumeric y) (magnitudeNumeric ?r)"
      using nn by (simp add: js_le_def)
    with False pre post dec show ?thesis
      by (intro exI [of _ pre] exI [of _ "post @ [y]"]) (simp add: js_gt_def)
  qed
qed

text \<open>
  C8, as stated, fails: the average is not the arithmetic mean of the values. For
  three records of magnitude 3.3 the value held is the double nearest to 3.3, and the
  average returned is the next double below it, less than the mean (and than every
  value).
\<close>

theorem computeStats_average_not_mean:
  "map magnitudeNumeric threeQuakes =
     [Num (3715469692580659 / 2 ^ 50), Num (3715469692580659 / 2 ^ 50),
      Num (3715469692580659 / 2 ^ 50)] \<and>
   map_sum id (average \<circ> stats_magnitude) (computeStats threeQuakes) =
     Inr (Num (7430939385161317 / 2 ^ 51)) \<and>
   (7430939385161317 / 2 ^ 51 :: real) <
     (3715469692580659 / 2 ^ 50 + 3715469692580659 / 2 ^ 50 + 3715469692580659 / 2 ^ 50) / 3"
  using three_values three_average by simp

text \<open>
  C8, amended: for a sequence that is not empty and whose magnitudes are numbers (not
  \<open>NaN\<close>, as \<open>parseMagnitude\<close> makes them), the statistics are returned; the maximum
  and minimum of the magnitudes are the greatest and the least of them; their average,
  when they are finite and their sum does not overflow, is the mean as binary64
  arithmetic computes it: the values added from the left, each partial sum rounded to
  the nearest double, and the sum divided by their number and rounded. The depth
  statistics are the same three over \<open>parseMagnitude\<close> of each depth. The strongest
  is the first record of maximal magnitude.
\<close>

theorem computeStats_values:
  assumes "earthquakes \<noteq> []" and "numeric earthquakes"
  shows "\<exists>st. computeStats earthquakes = Inr st \<and>
           summaryOf (map magnitudeNumeric earthquakes) (stats_magnitude st) \<and>
           summaryOf (map (\<lambda>eq. parseMagnitude (depth eq)) earthquakes) (stats_depth st) \<and>
           (\<exists>pre post. earthquakes = pre @ strongest st # post \<and>
              (\<forall>p\<in>set pre. js_lt (magnitudeNumeric p) (magnitudeNumeric (strongest st))) \<and>
              (\<forall>q\<in>set post. js_le (magnitudeNumeric q) (magnitudeNumeric (strongest st))))"
proof -
  from assms(1) obtain x rest where xs: "earthquakes = x # rest"
    by (cases earthquakes) auto
  have nn: "\<forall>eq\<in>set earthquakes. \<not> isNaN (magnitudeNumeric eq)"
    using assms(2) by (simp add: numeric_def list_all_iff)
  from strongest_first_maximal [OF nn [unfolded xs]]
  obtain pre post where dec: "x # rest = pre @ foldl stronger x rest # post"
    and pre: "\<forall>p\<in>set pre. js_lt (magnitudeNumeric p) (magnitudeNumeric (foldl stronger x rest))"
    and post: "\<forall>q\<in>set post. js_le (magnitudeNumeric q) (magnitudeNumeric (foldl stronger x rest))"
    by blast
  have mag: "summaryOf (map magnitudeNumeric earthquakes)
      (summarise (map magnitudeNumeric earthquakes))"
    using assms(1) nn by (intro summaryOf_summarise) auto
  have dep: "summaryOf (map (\<lambda>eq. parseMagnitude (depth eq)) earthquakes)
      (summarise (map (\<lambda>eq. parseMagnitude (depth eq)) earthquakes))"
    using assms(1) by (intro summaryOf_summarise) (auto simp: parseMagnitude_number)
  have red: "reduce1 stronger earthquakes = Inr (foldl stronger x rest)"
    by (simp add: reduce1_def xs)
  define st where "st =
      \<lparr>total_count = length earthquakes,
       stats_magnitude = summarise (map magnitudeNumeric earthquakes),
       stats_depth = summarise (map (\<lambda>eq. parseMagnitude (depth eq)) earthquakes),
       most_recent = Some x,
       strongest = foldl stronger x rest\<rparr>"
  have run: "computeStats earthquakes = Inr st"
    unfolding computeStats_def Let_def red st_def by (simp add: xs)
  have A: "summaryOf (map magnitudeNumeric earthquakes) (stats_magnitude st)"
    using mag by (simp add: st_def)
  have B: "summaryOf (map (\<lambda>eq. parseMagnitude (depth eq)) earthquakes) (stats_depth st)"
    using dep by (simp add: st_def)
  have S: "strongest st = foldl stronger x rest"
    by (simp add: st_def)
  have C: "\<exists>pre post. earthquakes = pre @ strongest st # post \<and>
      (\<forall>p\<in>set pre. js_lt (magnitudeNumeric p) (magnitudeNumeric (strongest st))) \<and>
      (\<forall>q\<in>set post. js_le (magnitudeNumeric q) (magnitudeNumeric (strongest st)))"
    unfolding S xs using dec pre post by blast
  from run A B C show ?thesis
    by blast
qed

lemma specFixture_stats:
  "map_sum id (\<lambda>st. (stats_magnitude st, strongest st)) (computeStats specFixture) =
     Inr (\<lparr>maximum = Num (6530219459687219 / 2 ^ 50),
           minimum = Num (4728779608739021 / 2 ^ 51),
           average = Num (4653719614949513 / 2 ^ 50)\<rparr>,
          quake ''5.8'' ''Cebu'')"
  by code_simp

lemma specFixture_values:
  "map magnitudeNumeric specFixture =
     map Num [9 / 2, 6530219459687219 / 2 ^ 50, 4728779608739021 / 2 ^ 51]"
  by code_simp

lemma specFixture_fits:
  "sumFits 0 [9 / 2, 6530219459687219 / 2 ^ 50, 4728779608739021 / 2 ^ 51]"
  by code_simp

theorem computeStats_values_witness:
  "map_sum id (\<lambda>st. (stats_magnitude st, strongest st)) (computeStats specFixture) =
     Inr (\<lparr>maximum = Num (6530219459687219 / 2 ^ 50),
           minimum = Num (4728779608739021 / 2 ^ 51),
           average = Num (4653719614949513 / 2 ^ 50)\<rparr>,
          quake ''5.8'' ''Cebu'') \<and>
   summaryOf (map magnitudeNumeric specFixture)
     \<lparr>maximum = Num (6530219459687219 / 2 ^ 50),
      minimum = Num (4728779608739021 / 2 ^ 51),
      average = Num (4653719614949513 / 2 ^ 50)\<rparr> \<and>
   round64 (sum64 0 [9 / 2, 6530219459687219 / 2 ^ 50, 4728779608739021 / 2 ^ 51] /
       real (length [9 / 2, 6530219459687219 / 2 ^ 50, 4728779608739021 / 2 ^ 51 :: real])) =
     Num (4653719614949513 / 2 ^ 50)"
proof -
  have h1: "specFixture \<noteq> []"
    by (simp add: specFixture_def)
  have h2: "numeric specFixture"
    by code_simp
  from computeStats_values [OF h1 h2] obtain st
    where run: "computeStats specFixture = Inr st"
      and sm: "summaryOf (map magnitudeNumeric specFixture) (stats_magnitude st)"
    by blast
  from run specFixture_stats
  have st: "stats_magnitude st =
      \<lparr>maximum = Num (6530219459687219 / 2 ^ 50),
       minimum = Num (4728779608739021 / 2 ^ 51),
       average = Num (4653719614949513 / 2 ^ 50)\<rparr>"
    by simp
  from sm specFixture_values specFixture_fits
  have "average (stats_magnitude st) =
      round64 (sum64 0 [9 / 2, 6530219459687219 / 2 ^ 50, 4728779608739021 / 2 ^ 51] /
        real (length [9 / 2, 6530219459687219 / 2 ^ 50, 4728779608739021 / 2 ^ 51 :: real]))"
    unfolding summaryOf_def by blast
  with sm st specFixture_stats show ?thesis
    by simp
qed

end
